theory Spec2Isabelle
  imports Complex_Main "HOL-Library.Log_Nat"
begin

section \<open>Numbers\<close>

text \<open>
  The animation components compute with JavaScript numbers. In the progress values of
  NurseAssessmentAnimation and CombinedAnimation they are modelled as \<^typ>\<open>real\<close>: the
  properties there are about the arithmetic the source writes down, read over the
  reals. \<open>Math.min\<close> and \<open>Math.max\<close> are \<^const>\<open>min\<close> and \<^const>\<open>max\<close>.

  The delays of DoctorProcessAnimation are computed from the prop \<open>staggerMs\<close>, which
  can be any number, and their order depends on how a quotient and a product are
  rounded. They are modelled in double precision (IEEE 754 binary64, round to nearest,
  ties to even), as follows.
\<close>

subsection \<open>Double precision\<close>

text \<open>
  A number is \<open>Num r\<close> for a finite value \<open>r\<close>, or one of \<open>Infinity\<close>, \<open>-Infinity\<close> and
  \<open>NaN\<close>. The two zeros are one value, \<open>Num 0\<close>: they compare equal, and nothing in the
  code modelled with this type divides by a zero.
\<close>

datatype double = Num real | PosInf | NegInf | NaN

text \<open>
  Rounding a real to the nearest integer, a tie going to the even one.
\<close>

definition round_even :: "real \<Rightarrow> int" where
  "round_even q =
     (let f = \<lfloor>q\<rfloor>; r = q - of_int f
      in if r < 1/2 then f else if r > 1/2 then f + 1 else if even f then f else f + 1)"

text \<open>
  Every finite double is an integer multiple of \<open>2^(-1074)\<close>. Around a real \<open>x\<close> the doubles are
  the multiples of \<open>2 ^ spacing_exp x / 2 ^ 1074\<close>: for \<open>2^E \<le> \<bar>x\<bar> < 2^(E+1)\<close> with
  \<open>E \<ge> -1022\<close> the integer \<open>\<lfloor>\<bar>x\<bar> * 2 ^ 1074\<rfloor>\<close> has \<open>E + 1075\<close> bits and the spacing is
  \<open>2^(E-52)\<close> (a significand of 53 bits); below \<open>2^(-1022)\<close> (subnormal numbers) it is
  \<open>2^(-1074)\<close>.
\<close>

definition spacing_exp :: "real \<Rightarrow> nat" where
  "spacing_exp x = nat (bitlen \<lfloor>\<bar>x\<bar> * 2 ^ 1074\<rfloor> - 53)"

text \<open>
  The double nearest to a real \<open>x\<close>. The largest finite double is \<open>2^(1024) - 2^(971)\<close>; a real
  of magnitude \<open>2^(1024) - 2^(970)\<close> or more rounds to an infinity.
\<close>

definition round_double :: "real \<Rightarrow> double" where
  "round_double x =
     (if \<bar>x\<bar> \<ge> 2 ^ 1024 - 2 ^ 970 then (if 0 < x then PosInf else NegInf)
      else let g = 2 ^ spacing_exp x / 2 ^ 1074
           in Num (of_int (round_even (x / g)) * g))"

text \<open>
  The operators \<open>*\<close>, \<open>+\<close>, \<open><\<close> and \<open><=\<close> on numbers: the exact result rounded, with the
  rules for infinities and \<open>NaN\<close> (a comparison with \<open>NaN\<close> is false).
\<close>

fun dmul :: "double \<Rightarrow> double \<Rightarrow> double" where
  "dmul (Num a) (Num b) = round_double (a * b)"
| "dmul (Num a) PosInf = (if a = 0 then NaN else if 0 < a then PosInf else NegInf)"
| "dmul (Num a) NegInf = (if a = 0 then NaN else if 0 < a then NegInf else PosInf)"
| "dmul PosInf (Num b) = (if b = 0 then NaN else if 0 < b then PosInf else NegInf)"
| "dmul NegInf (Num b) = (if b = 0 then NaN else if 0 < b then NegInf else PosInf)"
| "dmul PosInf PosInf = PosInf"
| "dmul PosInf NegInf = NegInf"
| "dmul NegInf PosInf = NegInf"
| "dmul NegInf NegInf = PosInf"
| "dmul NaN _ = NaN"
| "dmul _ NaN = NaN"

fun dadd :: "double \<Rightarrow> double \<Rightarrow> double" where
  "dadd (Num a) (Num b) = round_double (a + b)"
| "dadd (Num a) PosInf = PosInf"
| "dadd (Num a) NegInf = NegInf"
| "dadd PosInf (Num b) = PosInf"
| "dadd NegInf (Num b) = NegInf"
| "dadd PosInf PosInf = PosInf"
| "dadd NegInf NegInf = NegInf"
| "dadd PosInf NegInf = NaN"
| "dadd NegInf PosInf = NaN"
| "dadd NaN _ = NaN"
| "dadd _ NaN = NaN"

fun dless :: "double \<Rightarrow> double \<Rightarrow> bool" where
  "dless (Num a) (Num b) = (a < b)"
| "dless (Num a) PosInf = True"
| "dless NegInf (Num b) = True"
| "dless NegInf PosInf = True"
| "dless _ _ = False"

fun dle :: "double \<Rightarrow> double \<Rightarrow> bool" where
  "dle (Num a) (Num b) = (a \<le> b)"
| "dle (Num a) PosInf = True"
| "dle NegInf (Num b) = True"
| "dle NegInf PosInf = True"
| "dle PosInf PosInf = True"
| "dle NegInf NegInf = True"
| "dle _ _ = False"

fun finite_double :: "double \<Rightarrow> bool" where
  "finite_double (Num a) = True"
| "finite_double _ = False"

section \<open>Optional props\<close>

text \<open>
  An optional string prop is \<open>None\<close> when it is \<open>undefined\<close>. JavaScript's \<open>!url\<close> holds for
  \<open>undefined\<close> and for the empty string.
\<close>

definition falsy :: "string option \<Rightarrow> bool" where
  "falsy url = (case url of None \<Rightarrow> True | Some u \<Rightarrow> u = [])"

section \<open>Helpers of NurseAssessmentAnimation\<close>

text \<open>\<^verbatim>\<open>function clamp01(n) { return Math.min(1, Math.max(0, n)); }\<close>\<close>

definition clamp01 :: "real \<Rightarrow> real" where
  "clamp01 n = min 1 (max 0 n)"

text \<open>
  \<^verbatim>\<open>function mapRange(v, a, b) {
    if (v <= a) return 0; if (v >= b) return 1; return (v - a) / (b - a); }\<close>
\<close>

definition mapRange :: "real \<Rightarrow> real \<Rightarrow> real \<Rightarrow> real" where
  "mapRange v a b = (if v \<le> a then 0 else if v \<ge> b then 1 else (v - a) / (b - a))"

text \<open>
  Division of reals in HOL is total (\<open>x / 0 = 0\<close>), whereas the JavaScript quotient by
  zero is \<open>Infinity\<close> or \<open>NaN\<close>. \<open>js_div\<close> makes that visible: it has no finite result
  when the divisor is zero. \<open>mapRange_traced\<close> is \<open>mapRange\<close> again, same tests in the same
  order, recording which of its three \<open>return\<close> statements ran and dividing with \<open>js_div\<close>.
\<close>

definition js_div :: "real \<Rightarrow> real \<Rightarrow> real option" where
  "js_div n d = (if d = 0 then None else Some (n / d))"

datatype mapRange_return = ReturnZero | ReturnOne | ReturnQuotient

definition mapRange_traced :: "real \<Rightarrow> real \<Rightarrow> real \<Rightarrow> mapRange_return \<times> real option" where
  "mapRange_traced v a b =
     (if v \<le> a then (ReturnZero, Some 0)
      else if v \<ge> b then (ReturnOne, Some 1)
      else (ReturnQuotient, js_div (v - a) (b - a)))"

section \<open>NurseAssessmentAnimation\<close>

subsection \<open>The animation-frame loop\<close>

text \<open>
  The effect keeps the time of the last frame in the local variable \<open>last\<close> and the
  progress in the component state \<open>step\<close> (initially \<open>0\<close>). Both are the loop's state.
\<close>

record nurse_loop =
  last_now :: real
  step :: real

definition dur :: real where
  "dur = 6000"

text \<open>
  The updater handed to \<open>setStep\<close>:
  \<^verbatim>\<open>s => { let ns = s + (dt * speed) / dur; if (ns >= 1) ns = 1; return ns; }\<close>
\<close>

definition stepUpdater :: "real \<Rightarrow> real \<Rightarrow> real \<Rightarrow> real" where
  "stepUpdater speed dt s = (let ns = s + (dt * speed) / dur in if ns \<ge> 1 then 1 else ns)"

text \<open>
  One call of \<open>tick(now)\<close>: \<open>dt = now - last; last = now;\<close> and, when \<open>isPlaying\<close>, the
  state update. The frame request that follows is the next element of the list of frame
  times in \<open>run_ticks\<close>.
\<close>

definition tick :: "bool \<Rightarrow> real \<Rightarrow> real \<Rightarrow> nurse_loop \<Rightarrow> nurse_loop" where
  "tick isPlaying speed now st =
     (let dt = now - last_now st
      in \<lparr>last_now = now,
          step = (if isPlaying then stepUpdater speed dt (step st) else step st)\<rparr>)"

fun run_ticks :: "bool \<Rightarrow> real \<Rightarrow> real list \<Rightarrow> nurse_loop \<Rightarrow> nurse_loop" where
  "run_ticks isPlaying speed [] st = st"
| "run_ticks isPlaying speed (now # nows) st =
     run_ticks isPlaying speed nows (tick isPlaying speed now st)"

subsection \<open>Monitor cards\<close>

text \<open>
  \<^verbatim>\<open>const showVitals = step >= 0.6;
  const showPain   = step >= 0.75;
  const showNotes  = step >= 0.9;\<close>
\<close>

definition showVitals :: "real \<Rightarrow> bool" where
  "showVitals s = (s \<ge> 0.6)"

definition showPain :: "real \<Rightarrow> bool" where
  "showPain s = (s \<ge> 0.75)"

definition showNotes :: "real \<Rightarrow> bool" where
  "showNotes s = (s \<ge> 0.9)"

text \<open>
  The props of a rendered \<open>MonitorCard\<close> (the icon apart). \<open>scale\<close> defaults to \<open>1\<close>.
  The monitor shows the same three cards, in the same order, with or without a
  \<open>computerIconUrl\<close>; only the wrapper and the explicit \<open>scale={1.0}\<close> differ.
\<close>

record monitor_card =
  card_title :: string
  visible :: bool
  scale :: real

definition monitorCards :: "string option \<Rightarrow> real \<Rightarrow> monitor_card list" where
  "monitorCards computerIconUrl s =
     (if \<not> falsy computerIconUrl
      then [\<lparr>card_title = ''Vitals'', visible = showVitals s, scale = 1.0\<rparr>,
            \<lparr>card_title = ''Pain Assessment'', visible = showPain s, scale = 1.0\<rparr>,
            \<lparr>card_title = ''Subjective Notes'', visible = showNotes s, scale = 1.0\<rparr>]
      else [\<lparr>card_title = ''Vitals'', visible = showVitals s, scale = 1\<rparr>,
            \<lparr>card_title = ''Pain Assessment'', visible = showPain s, scale = 1\<rparr>,
            \<lparr>card_title = ''Subjective Notes'', visible = showNotes s, scale = 1\<rparr>])"

subsection \<open>Timeline slices\<close>

text \<open>
  \<^verbatim>\<open>const writeProg = clamp01(mapRange(step, 0.0, 0.35));
  const arrowProg = clamp01(mapRange(step, 0.35, 0.55));
  const fileProg  = clamp01(mapRange(step, 0.35, 0.80));\<close>
\<close>

definition writeProg :: "real \<Rightarrow> real" where
  "writeProg s = clamp01 (mapRange s 0.0 0.35)"

definition arrowProg :: "real \<Rightarrow> real" where
  "arrowProg s = clamp01 (mapRange s 0.35 0.55)"

definition fileProg :: "real \<Rightarrow> real" where
  "fileProg s = clamp01 (mapRange s 0.35 0.80)"

subsection \<open>The file packet\<close>

text \<open>
  \<^verbatim>\<open>function easeInOutQuad(t) {
    return t < 0.5 ? 2 * t * t : 1 - Math.pow(-2 * t + 2, 2) / 2; }\<close>
\<close>

definition easeInOutQuad :: "real \<Rightarrow> real" where
  "easeInOutQuad t = (if t < 0.5 then 2 * t * t else 1 - (- 2 * t + 2) ^ 2 / 2)"

text \<open>
  What \<open>FileTransfer\<close> renders: \<open>None\<close> for \<open>null\<close>, otherwise the \<open>left\<close> and \<open>top\<close>
  percentages of the positioned \<open>div\<close> and the \<open>src\<close> of the image in it.
\<close>

record file_packet =
  leftPct :: real
  topPct :: real
  src :: string

text \<open>
  \<open>FileTransfer\<close> asks the browser for the geometry of the path
  \<^verbatim>\<open>M 10 40 A 155 155 0 0 1 320 40\<close>: \<open>path.getTotalLength()\<close> and \<open>path.getPointAtLength\<close>
  are the parameters \<open>L\<close> and \<open>getPointAtLength\<close> (a point is a pair \<open>(x, y)\<close>).
  \<^verbatim>\<open>if (!fileIconUrl || progress <= 0 || progress > 1) return null;
  const p = easeInOutQuad(clamp01(progress));
  const pt = path.getPointAtLength(L * p);
  const viewW = 340, viewH = 80;
  const leftPct = (pt.x / viewW) * 100;
  const topPct  = (pt.y / viewH) * 100;\<close>
\<close>

definition FileTransfer ::
  "real \<Rightarrow> (real \<Rightarrow> real \<times> real) \<Rightarrow> real \<Rightarrow> string option \<Rightarrow> file_packet option" where
  "FileTransfer L getPointAtLength progress fileIconUrl =
     (if falsy fileIconUrl \<or> progress \<le> 0 \<or> progress > 1 then None
      else
        let p = easeInOutQuad (clamp01 progress);
            pt = getPointAtLength (L * p);
            viewW = 340; viewH = 80
        in Some \<lparr>leftPct = (fst pt / viewW) * 100,
                 topPct = (snd pt / viewH) * 100,
                 src = (case fileIconUrl of Some u \<Rightarrow> u | None \<Rightarrow> [])\<rparr>)"

text \<open>
  The geometry of that path as SVG defines it: the arc has both radii \<open>155\<close> and its end
  points \<open>(10, 40)\<close> and \<open>(320, 40)\<close> are \<open>310\<close> apart, so it is the half circle around
  \<open>(165, 40)\<close>; with the sweep flag set it runs through the top point \<open>(165, -115)\<close>. Its
  length is \<open>155 \<pi>\<close> and the point at length \<open>l\<close> is at the angle \<open>l / 155\<close> from the start.
\<close>

definition arcTotalLength :: real where
  "arcTotalLength = 155 * pi"

definition arcPointAtLength :: "real \<Rightarrow> real \<times> real" where
  "arcPointAtLength l = (165 - 155 * cos (l / 155), 40 - 155 * sin (l / 155))"

subsection \<open>The nurse icon\<close>

text \<open>
  \<^verbatim>\<open>const NurseIcon = useMemo(() => nurseIconUrl
    ? () => <img src={nurseIconUrl} ... /> : SvgNurseCap, [nurseIconUrl]);\<close>
\<close>

datatype icon = SvgNurseCap | Img string

definition NurseIcon :: "string option \<Rightarrow> icon" where
  "NurseIcon nurseIconUrl =
     (if \<not> falsy nurseIconUrl
      then Img (case nurseIconUrl of Some u \<Rightarrow> u | None \<Rightarrow> [])
      else SvgNurseCap)"

section \<open>DoctorProcessAnimation\<close>

text \<open>\<^verbatim>\<open>export type Step = { title: string };\<close>\<close>

record Step =
  title :: string

text \<open>The props; every one of them is optional.\<close>

record DoctorProcessAnimationProps =
  doctorIconUrl :: "string option"
  computerIconUrl :: "string option"
  fileIconUrl :: "string option"
  steps :: "Step list option"
  start :: "bool option"
  resetToken :: "real option"
  staggerMs :: "real option"
  disableFinalHandoff :: "bool option"
  clinicalNoteText :: "string option"

text \<open>
  The parameter list destructures the props; a default applies where the prop is
  \<open>undefined\<close>. These are the five bindings that have a default.
\<close>

record doctor_bindings =
  steps_b :: "Step list"
  start_b :: bool
  staggerMs_b :: real
  disableFinalHandoff_b :: bool
  clinicalNoteText_b :: string

definition destructure :: "DoctorProcessAnimationProps \<Rightarrow> doctor_bindings" where
  "destructure props =
     \<lparr>steps_b = (case steps props of
                   None \<Rightarrow> [\<lparr>title = ''Lab Order''\<rparr>,
                            \<lparr>title = ''Prescription Order''\<rparr>,
                            \<lparr>title = ''Imaging Order''\<rparr>,
                            \<lparr>title = ''Follow up''\<rparr>,
                            \<lparr>title = ''Referral''\<rparr>]
                 | Some v \<Rightarrow> v),
      start_b = (case start props of None \<Rightarrow> False | Some v \<Rightarrow> v),
      staggerMs_b = (case staggerMs props of None \<Rightarrow> 750 | Some v \<Rightarrow> v),
      disableFinalHandoff_b = (case disableFinalHandoff props of None \<Rightarrow> False | Some v \<Rightarrow> v),
      clinicalNoteText_b = (case clinicalNoteText props of None \<Rightarrow> ''Clinical Note'' | Some v \<Rightarrow> v)\<rparr>"

text \<open>
  \<^verbatim>\<open>const perItemDelaySec = staggerMs / 2000;
  const handoffDelaySec = steps.length * perItemDelaySec + 0.2;\<close>
  The quotient by the finite, positive constant \<open>2000\<close> is rounded for a finite
  \<open>staggerMs\<close>, and an infinity or \<open>NaN\<close> stays what it is.
\<close>

definition perItemDelaySec :: "double \<Rightarrow> double" where
  "perItemDelaySec ms =
     (case ms of Num m \<Rightarrow> round_double (m / 2000) | PosInf \<Rightarrow> PosInf
      | NegInf \<Rightarrow> NegInf | NaN \<Rightarrow> NaN)"

text \<open>
  \<open>steps.length\<close> and the index \<open>i\<close> are integers below \<open>2^(32)\<close>, which are doubles; the
  literal \<open>0.2\<close> is the double nearest to \<open>2/10\<close>.
\<close>

definition handoffDelaySec :: "Step list \<Rightarrow> double \<Rightarrow> double" where
  "handoffDelaySec ss ms =
     dadd (dmul (Num (real (length ss))) (perItemDelaySec ms)) (round_double 0.2)"

text \<open>
  \<open>steps.map((s, i) => ...)\<close> renders one item per step, with the step's title and
  \<open>transition.delay = perItemDelaySec * i\<close>.
\<close>

definition stepItems :: "Step list \<Rightarrow> double \<Rightarrow> (string \<times> double) list" where
  "stepItems ss ms =
     map (\<lambda>(i, s). (title s, dmul (perItemDelaySec ms) (Num (real i)))) (enumerate 0 ss)"

section \<open>Helpers of CombinedAnimation\<close>

text \<open>The second copy of the clamp, declared at the end of CombinedAnimation.\<close>

definition clamp01_combined :: "real \<Rightarrow> real" where
  "clamp01_combined n = min 1 (max 0 n)"

text \<open>
  \<open>cubicBezierPoint\<close> returns the object \<open>{ x, y }\<close>, here the pair \<open>(x, y)\<close>.
\<close>

definition cubicBezierPoint ::
  "real \<Rightarrow> real \<Rightarrow> real \<Rightarrow> real \<Rightarrow> real \<Rightarrow> real \<Rightarrow> real \<Rightarrow> real \<Rightarrow> real \<Rightarrow> real \<times> real" where
  "cubicBezierPoint t x1 y1 cx1 cy1 cx2 cy2 x2 y2 =
     (let u = 1 - t;
          tt = t * t;
          uu = u * u;
          uuu = uu * u;
          ttt = tt * t;
          x = uuu * x1 + 3 * uu * t * cx1 + 3 * u * tt * cx2 + ttt * x2;
          y = uuu * y1 + 3 * uu * t * cy1 + 3 * u * tt * cy2 + ttt * y2
      in (x, y))"

subsection \<open>The animation-frame loop of the bridge\<close>

text \<open>
  One run of the effect that animates the file. Its state: the closure variables
  \<open>cancelled\<close> and \<open>raf\<close>; the browser's side of \<open>requestAnimationFrame\<close>, which is the
  list \<open>pending\<close> of the handles of this effect's frame requests that are still
  outstanding and the last handle given out; and the component state \<open>bridgeProg\<close>.
\<close>

record bridge_loop =
  cancelled :: bool
  raf :: nat
  pending :: "nat list"
  last_handle :: nat
  bridgeProg :: real

text \<open>
  \<open>requestAnimationFrame(tick)\<close> registers the callback and returns its handle, a fresh
  positive number; \<open>cancelAnimationFrame(h)\<close> drops the request with that handle.
\<close>

definition requestAnimationFrame :: "bridge_loop \<Rightarrow> nat \<times> bridge_loop" where
  "requestAnimationFrame st =
     (let h = Suc (last_handle st)
      in (h, st\<lparr>pending := pending st @ [h], last_handle := h\<rparr>))"

definition cancelAnimationFrame :: "nat \<Rightarrow> bridge_loop \<Rightarrow> bridge_loop" where
  "cancelAnimationFrame h st = st\<lparr>pending := filter (\<lambda>k. k \<noteq> h) (pending st)\<rparr>"

text \<open>\<^verbatim>\<open>const p = Math.min(1, (now - t0) / bridgeDurationMs);\<close>\<close>

definition bridgeProgress :: "real \<Rightarrow> real \<Rightarrow> real \<Rightarrow> real" where
  "bridgeProgress t0 bridgeDurationMs now = min 1 ((now - t0) / bridgeDurationMs)"

text \<open>
  \<^verbatim>\<open>const tick = (now) => {
    if (cancelled) return;
    const p = Math.min(1, (now - t0) / bridgeDurationMs);
    setBridgeProg(p);
    if (p < 1) { raf = requestAnimationFrame(tick); }
  };\<close>
\<close>

definition bridge_tick :: "real \<Rightarrow> real \<Rightarrow> real \<Rightarrow> bridge_loop \<Rightarrow> bridge_loop" where
  "bridge_tick t0 bridgeDurationMs now st =
     (if cancelled st then st
      else
        let p = bridgeProgress t0 bridgeDurationMs now;
            st1 = st\<lparr>bridgeProg := p\<rparr>
        in if p < 1
           then (let (h, st2) = requestAnimationFrame st1 in st2\<lparr>raf := h\<rparr>)
           else st1)"

text \<open>
  The body of the effect. With \<open>bridgeRun = 0\<close> it returns at once: nothing is requested
  and there is no cleanup (\<open>None\<close>). Otherwise \<open>cancelled = false\<close>, \<open>raf = 0\<close>, and the first
  frame is requested. \<open>handle0\<close> is the browser's last handle and \<open>prog0\<close> the value of
  \<open>bridgeProg\<close> at that moment.
\<close>

definition bridge_effect :: "nat \<Rightarrow> nat \<Rightarrow> real \<Rightarrow> bridge_loop option" where
  "bridge_effect bridgeRun handle0 prog0 =
     (if bridgeRun = 0 then None
      else
        let st0 = \<lparr>cancelled = False, raf = 0, pending = [], last_handle = handle0,
                   bridgeProg = prog0\<rparr>;
            (h, st1) = requestAnimationFrame st0
        in Some (st1\<lparr>raf := h\<rparr>))"

text \<open>\<^verbatim>\<open>return () => { cancelled = true; if (raf) cancelAnimationFrame(raf); };\<close>\<close>

definition bridge_cleanup :: "bridge_loop \<Rightarrow> bridge_loop" where
  "bridge_cleanup st =
     (let st1 = st\<lparr>cancelled := True\<rparr>
      in if raf st1 \<noteq> 0 then cancelAnimationFrame (raf st1) st1 else st1)"

text \<open>
  An animation frame of the browser at time \<open>now\<close>: the requests outstanding at its start
  are taken off the list and the callback of each, \<open>tick\<close>, is called with \<open>now\<close>.
\<close>

definition animation_frame :: "real \<Rightarrow> real \<Rightarrow> real \<Rightarrow> bridge_loop \<Rightarrow> bridge_loop" where
  "animation_frame t0 bridgeDurationMs now st =
     fold (\<lambda>_. bridge_tick t0 bridgeDurationMs now) (pending st) (st\<lparr>pending := []\<rparr>)"

text \<open>What can happen to a running effect: a frame of the browser, or React's cleanup.\<close>

datatype bridge_event = Frame real | Cleanup

fun bridge_step :: "real \<Rightarrow> real \<Rightarrow> bridge_event \<Rightarrow> bridge_loop \<Rightarrow> bridge_loop" where
  "bridge_step t0 bridgeDurationMs (Frame now) st = animation_frame t0 bridgeDurationMs now st"
| "bridge_step t0 bridgeDurationMs Cleanup st = bridge_cleanup st"

fun bridge_run :: "real \<Rightarrow> real \<Rightarrow> bridge_event list \<Rightarrow> bridge_loop \<Rightarrow> bridge_loop" where
  "bridge_run t0 bridgeDurationMs [] st = st"
| "bridge_run t0 bridgeDurationMs (e # es) st =
     bridge_run t0 bridgeDurationMs es (bridge_step t0 bridgeDurationMs e st)"

text \<open>
  The invariant of the loop: no request is outstanding, or the effect is not cancelled
  and the one outstanding request is the one whose handle \<open>raf\<close> holds.
\<close>

definition bridge_inv :: "bridge_loop \<Rightarrow> bool" where
  "bridge_inv st = (pending st = [] \<or> (\<not> cancelled st \<and> raf st \<noteq> 0 \<and> pending st = [raf st]))"

section \<open>Properties\<close>

subsection \<open>The clamp\<close>

lemma clamp01_range: "0 \<le> clamp01 n \<and> clamp01 n \<le> 1"
  by (simp add: clamp01_def)

lemma clamp01_id: "0 \<le> n \<Longrightarrow> n \<le> 1 \<Longrightarrow> clamp01 n = n"
  by (simp add: clamp01_def)

lemma clamp01_mono: "m \<le> n \<Longrightarrow> clamp01 m \<le> clamp01 n"
  by (simp add: clamp01_def min_def max_def)

lemma clamp01_combined_range: "0 \<le> clamp01_combined n \<and> clamp01_combined n \<le> 1"
  by (simp add: clamp01_combined_def)

lemma clamp01_combined_id: "0 \<le> n \<Longrightarrow> n \<le> 1 \<Longrightarrow> clamp01_combined n = n"
  by (simp add: clamp01_combined_def)

text \<open>
  Claim C9. Both copies of \<open>clamp01\<close> return a value in \<open>[0,1]\<close> for every real input,
  leave an input that already lies in \<open>[0,1]\<close> unchanged, and are idempotent.
\<close>

theorem clamp01_range_identity_idempotent:
  "0 \<le> clamp01 n \<and> clamp01 n \<le> 1
   \<and> (0 \<le> n \<and> n \<le> 1 \<longrightarrow> clamp01 n = n)
   \<and> clamp01 (clamp01 n) = clamp01 n
   \<and> 0 \<le> clamp01_combined n \<and> clamp01_combined n \<le> 1
   \<and> (0 \<le> n \<and> n \<le> 1 \<longrightarrow> clamp01_combined n = n)
   \<and> clamp01_combined (clamp01_combined n) = clamp01_combined n"
proof -
  have idem: "clamp01 (clamp01 n) = clamp01 n"
    using clamp01_range [of n] by (simp add: clamp01_id)
  have idem': "clamp01_combined (clamp01_combined n) = clamp01_combined n"
    using clamp01_combined_range [of n] by (simp add: clamp01_combined_id)
  show ?thesis
    using clamp01_range [of n] clamp01_combined_range [of n] idem idem'
    by (simp add: clamp01_id clamp01_combined_id)
qed

theorem clamp01_range_identity_idempotent_witness:
  "(0::real) \<le> 1/4 \<and> (1/4::real) \<le> 1
   \<and> clamp01 (1/4) = 1/4 \<and> clamp01_combined (1/4) = 1/4
   \<and> clamp01 (clamp01 (1/4)) = clamp01 (1/4)"
  using clamp01_range_identity_idempotent [of "1/4"] by simp

subsection \<open>mapRange\<close>

lemma mapRange_range: "a < b \<Longrightarrow> 0 \<le> mapRange v a b \<and> mapRange v a b \<le> 1"
  by (simp add: mapRange_def)

lemma mapRange_mono:
  assumes "a < b" and "v \<le> w"
  shows "mapRange v a b \<le> mapRange w a b"
proof -
  have pos: "0 < b - a" using assms(1) by simp
  have quot: "(v - a) / (b - a) \<le> (w - a) / (b - a)"
    using assms(2) pos by (simp add: divide_right_mono)
  have lo: "0 \<le> (w - a) / (b - a)" if "a < w"
    using that pos by simp
  have hi: "(v - a) / (b - a) \<le> 1" if "v < b"
    using that pos by simp
  show ?thesis
    using assms quot lo hi by (auto simp add: mapRange_def)
qed

lemma mapRange_low: "v \<le> a \<Longrightarrow> mapRange v a b = 0"
  by (simp add: mapRange_def)

lemma mapRange_high: "a < b \<Longrightarrow> b \<le> v \<Longrightarrow> mapRange v a b = 1"
  by (simp add: mapRange_def)

text \<open>
  Claim C8. \<open>mapRange\<close> never divides by zero: the quotient is computed only when
  \<open>a < v < b\<close>, where the divisor \<open>b - a\<close> is positive, so the traced function always has
  the finite result of \<open>mapRange\<close>. For every \<open>a < b\<close> the result lies in \<open>[0,1]\<close>, is
  \<open>0\<close> for \<open>v \<le> a\<close>, is \<open>1\<close> for \<open>v \<ge> b\<close>, and is monotone nondecreasing in \<open>v\<close>.
\<close>

theorem mapRange_safe_bounded_monotone:
  "snd (mapRange_traced v a b) = Some (mapRange v a b)
   \<and> (fst (mapRange_traced v a b) = ReturnQuotient \<longrightarrow> a < v \<and> v < b \<and> 0 < b - a)
   \<and> (a < b \<longrightarrow>
        0 \<le> mapRange v a b \<and> mapRange v a b \<le> 1
        \<and> (v \<le> a \<longrightarrow> mapRange v a b = 0)
        \<and> (b \<le> v \<longrightarrow> mapRange v a b = 1)
        \<and> (\<forall>w. v \<le> w \<longrightarrow> mapRange v a b \<le> mapRange w a b))"
proof -
  have safe: "snd (mapRange_traced v a b) = Some (mapRange v a b)"
    by (simp add: mapRange_traced_def mapRange_def js_div_def)
  have reach: "fst (mapRange_traced v a b) = ReturnQuotient \<longrightarrow> a < v \<and> v < b \<and> 0 < b - a"
    by (simp add: mapRange_traced_def)
  show ?thesis
    using safe reach mapRange_range [of a b v] mapRange_mono [of a b v]
    by (simp add: mapRange_low mapRange_high)
qed

theorem mapRange_safe_bounded_monotone_witness:
  "fst (mapRange_traced 1 0 2) = ReturnQuotient \<and> (0::real) < 2 \<and> (1::real) \<le> 3/2
   \<and> snd (mapRange_traced 1 0 2) = Some (1/2)
   \<and> mapRange 1 0 2 = 1/2 \<and> mapRange 1 0 2 \<le> mapRange (3/2) 0 2
   \<and> mapRange (3/2) 0 2 = 3/4
   \<and> mapRange 0 0 2 = 0 \<and> mapRange 2 0 2 = 1"
  using mapRange_safe_bounded_monotone [of 1 0 2]
    mapRange_safe_bounded_monotone [of 0 0 2]
    mapRange_safe_bounded_monotone [of 2 0 2]
  by (simp add: mapRange_traced_def mapRange_def js_div_def)

subsection \<open>Timeline slices\<close>

lemma slice_range: "a < b \<Longrightarrow> 0 \<le> clamp01 (mapRange s a b) \<and> clamp01 (mapRange s a b) \<le> 1"
  by (rule clamp01_range)

lemma slice_mono: "a < b \<Longrightarrow> s \<le> t \<Longrightarrow> clamp01 (mapRange s a b) \<le> clamp01 (mapRange t a b)"
  by (rule clamp01_mono) (rule mapRange_mono)

lemma slice_low: "s \<le> a \<Longrightarrow> clamp01 (mapRange s a b) = 0"
  by (simp add: mapRange_low clamp01_def)

lemma slice_high: "a < b \<Longrightarrow> b \<le> s \<Longrightarrow> clamp01 (mapRange s a b) = 1"
  by (simp add: mapRange_high clamp01_def)

text \<open>
  Claim C2. The timeline slices \<open>writeProg\<close>, \<open>arrowProg\<close> and \<open>fileProg\<close> lie in \<open>[0,1]\<close>
  for every real \<open>step\<close>, are monotone nondecreasing in \<open>step\<close>, are \<open>0\<close> for \<open>step\<close> at or
  below the start of their window (\<open>0\<close>, \<open>0.35\<close>, \<open>0.35\<close>) and \<open>1\<close> from the window's end
  onward (\<open>0.35\<close>, \<open>0.55\<close>, \<open>0.80\<close>).
\<close>

theorem timeline_slices_bounded_monotone:
  "0 \<le> writeProg s \<and> writeProg s \<le> 1
   \<and> 0 \<le> arrowProg s \<and> arrowProg s \<le> 1
   \<and> 0 \<le> fileProg s \<and> fileProg s \<le> 1
   \<and> (s \<le> t \<longrightarrow> writeProg s \<le> writeProg t \<and> arrowProg s \<le> arrowProg t
                  \<and> fileProg s \<le> fileProg t)
   \<and> (s \<le> 0 \<longrightarrow> writeProg s = 0)
   \<and> (s \<le> 0.35 \<longrightarrow> arrowProg s = 0 \<and> fileProg s = 0)
   \<and> (0.35 \<le> s \<longrightarrow> writeProg s = 1)
   \<and> (0.55 \<le> s \<longrightarrow> arrowProg s = 1)
   \<and> (0.80 \<le> s \<longrightarrow> fileProg s = 1)"
proof -
  have w: "(0.0::real) < 0.35" and a: "(0.35::real) < 0.55" and f: "(0.35::real) < 0.80"
    by simp_all
  have range: "0 \<le> writeProg s \<and> writeProg s \<le> 1 \<and> 0 \<le> arrowProg s \<and> arrowProg s \<le> 1
      \<and> 0 \<le> fileProg s \<and> fileProg s \<le> 1"
    unfolding writeProg_def arrowProg_def fileProg_def
    using slice_range [OF w] slice_range [OF a] slice_range [OF f] by blast
  have mono: "s \<le> t \<longrightarrow> writeProg s \<le> writeProg t \<and> arrowProg s \<le> arrowProg t
      \<and> fileProg s \<le> fileProg t"
    unfolding writeProg_def arrowProg_def fileProg_def
    using slice_mono [OF w] slice_mono [OF a] slice_mono [OF f] by blast
  have low: "(s \<le> 0 \<longrightarrow> writeProg s = 0) \<and> (s \<le> 0.35 \<longrightarrow> arrowProg s = 0 \<and> fileProg s = 0)"
    unfolding writeProg_def arrowProg_def fileProg_def
    using slice_low [of s "0.0" "0.35"] slice_low [of s "0.35" "0.55"]
      slice_low [of s "0.35" "0.80"] by simp
  have high: "(0.35 \<le> s \<longrightarrow> writeProg s = 1) \<and> (0.55 \<le> s \<longrightarrow> arrowProg s = 1)
      \<and> (0.80 \<le> s \<longrightarrow> fileProg s = 1)"
    unfolding writeProg_def arrowProg_def fileProg_def
    using slice_high [OF w, of s] slice_high [OF a, of s] slice_high [OF f, of s] by blast
  from range mono low high show ?thesis by blast
qed

theorem timeline_slices_bounded_monotone_witness:
  "(0.2::real) \<le> 0.5 \<and> writeProg 0.2 = 4/7 \<and> writeProg 0.5 = 1
   \<and> arrowProg 0.2 = 0 \<and> arrowProg 0.5 = 3/4
   \<and> fileProg 0.2 = 0 \<and> fileProg 0.5 = 1/3
   \<and> writeProg 0.2 \<le> writeProg 0.5 \<and> arrowProg 0.2 \<le> arrowProg 0.5
   \<and> fileProg 0.2 \<le> fileProg 0.5
   \<and> writeProg 0 = 0 \<and> arrowProg 0.9 = 1 \<and> fileProg 0.9 = 1"
  using timeline_slices_bounded_monotone [of "0.2" "0.5"]
    timeline_slices_bounded_monotone [of "0.5" "0.9"]
    timeline_slices_bounded_monotone [of 0 0]
    timeline_slices_bounded_monotone [of "0.9" 1]
  by (simp add: writeProg_def arrowProg_def fileProg_def mapRange_def clamp01_def)

subsection \<open>Monitor cards\<close>

text \<open>
  Claim C3. The three monitor cards are Vitals, Pain Assessment and Subjective Notes, in
  that order, visible from \<open>step \<ge> 0.6\<close>, \<open>step \<ge> 0.75\<close> and \<open>step \<ge> 0.9\<close>; whenever
  Subjective Notes is visible so is Pain Assessment, and whenever Pain Assessment is
  visible so is Vitals.
\<close>

theorem monitor_cards_narrative_order:
  "map card_title (monitorCards url s)
     = [''Vitals'', ''Pain Assessment'', ''Subjective Notes'']
   \<and> map visible (monitorCards url s) = [s \<ge> 0.6, s \<ge> 0.75, s \<ge> 0.9]
   \<and> (visible (monitorCards url s ! 2) \<longrightarrow> visible (monitorCards url s ! 1))
   \<and> (visible (monitorCards url s ! 1) \<longrightarrow> visible (monitorCards url s ! 0))
   \<and> (showNotes s \<longrightarrow> showPain s) \<and> (showPain s \<longrightarrow> showVitals s)"
  by (simp add: monitorCards_def showVitals_def showPain_def showNotes_def falsy_def)

theorem monitor_cards_narrative_order_witness:
  "visible (monitorCards None 0.95 ! 2) \<and> visible (monitorCards None 0.95 ! 1)
   \<and> visible (monitorCards None 0.95 ! 0)
   \<and> showNotes 0.95 \<and> showPain 0.95 \<and> showVitals 0.95
   \<and> showPain 0.8 \<and> showVitals 0.8 \<and> \<not> showNotes 0.8
   \<and> map visible (monitorCards (Some ''/icons/computer_icon.png'') 0.7) = [True, False, False]"
  using monitor_cards_narrative_order [of None "0.95"]
    monitor_cards_narrative_order [of None "0.8"]
    monitor_cards_narrative_order [of "Some ''/icons/computer_icon.png''" "0.7"]
  by (simp add: monitorCards_def showVitals_def showPain_def showNotes_def falsy_def)

subsection \<open>The animation-frame loop of NurseAssessmentAnimation\<close>

lemma stepUpdater_min: "stepUpdater speed dt s = min 1 (s + (dt * speed) / 6000)"
  by (simp add: stepUpdater_def dur_def Let_def min_def)

lemma stepUpdater_bounds:
  assumes "0 \<le> dt" and "0 \<le> speed" and "0 \<le> s" and "s \<le> 1"
  shows "0 \<le> stepUpdater speed dt s \<and> stepUpdater speed dt s \<le> 1 \<and> s \<le> stepUpdater speed dt s"
proof -
  have "0 \<le> dt * speed" using assms(1,2) by simp
  then have inc: "0 \<le> (dt * speed) / 6000" by simp
  show ?thesis
    using inc assms(3,4) by (simp add: stepUpdater_min min_def)
qed

lemma tick_last_now: "last_now (tick isPlaying speed now st) = now"
  by (simp add: tick_def Let_def)

lemma tick_step:
  "step (tick isPlaying speed now st)
     = (if isPlaying then stepUpdater speed (now - last_now st) (step st) else step st)"
  by (simp add: tick_def Let_def)

lemma tick_bounds:
  assumes "last_now st \<le> now" and "0 \<le> speed" and "0 \<le> step st" and "step st \<le> 1"
  shows "0 \<le> step (tick isPlaying speed now st) \<and> step (tick isPlaying speed now st) \<le> 1
         \<and> step st \<le> step (tick isPlaying speed now st)"
proof (cases isPlaying)
  case True
  have "0 \<le> now - last_now st" using assms(1) by simp
  from stepUpdater_bounds [OF this assms(2,3,4)] True show ?thesis
    by (simp add: tick_step)
next
  case False
  then show ?thesis using assms(3,4) by (simp add: tick_step)
qed

lemma run_ticks_bounds:
  "sorted (last_now st # nows) \<Longrightarrow> 0 \<le> speed \<Longrightarrow> 0 \<le> step st \<Longrightarrow> step st \<le> 1 \<Longrightarrow>
   0 \<le> step (run_ticks isPlaying speed nows st) \<and> step (run_ticks isPlaying speed nows st) \<le> 1
   \<and> step st \<le> step (run_ticks isPlaying speed nows st)"
proof (induction nows arbitrary: st)
  case Nil
  then show ?case by simp
next
  case (Cons now nows)
  let ?st' = "tick isPlaying speed now st"
  have le: "last_now st \<le> now" and srt: "sorted (now # nows)"
    using Cons.prems(1) by simp_all
  have b: "0 \<le> step ?st' \<and> step ?st' \<le> 1 \<and> step st \<le> step ?st'"
    using tick_bounds [OF le Cons.prems(2,3,4)] .
  have srt': "sorted (last_now ?st' # nows)"
    using srt by (simp only: tick_last_now)
  have "0 \<le> step (run_ticks isPlaying speed nows ?st')
      \<and> step (run_ticks isPlaying speed nows ?st') \<le> 1
      \<and> step ?st' \<le> step (run_ticks isPlaying speed nows ?st')"
    using Cons.IH [OF srt' Cons.prems(2)] b by blast
  then show ?case using b by simp
qed

text \<open>
  Claim C1. In the animation-frame loop of NurseAssessmentAnimation, for a tick with
  elapsed time \<open>dt = now - last \<ge> 0\<close> and \<open>speed \<ge> 0\<close>, when the step before the tick lies
  in \<open>[0,1]\<close>, the updated step is \<open>s + (dt * speed) / 6000\<close> capped at \<open>1\<close> (while playing),
  lies in \<open>[0,1]\<close> and is at least the previous step. The same holds after any number of
  ticks at nondecreasing frame times, and once the step is \<open>1\<close> it is \<open>1\<close> after every
  further tick.
\<close>

theorem step_stays_in_unit_interval_and_grows:
  assumes "last_now st \<le> now" and "sorted (now # nows)"
    and "0 \<le> speed" and "0 \<le> step st" and "step st \<le> 1"
  shows "step (tick True speed now st) = min 1 (step st + ((now - last_now st) * speed) / 6000)
    \<and> step (tick False speed now st) = step st
    \<and> 0 \<le> step (tick isPlaying speed now st) \<and> step (tick isPlaying speed now st) \<le> 1
    \<and> step st \<le> step (tick isPlaying speed now st)
    \<and> 0 \<le> step (run_ticks isPlaying speed (now # nows) st)
    \<and> step (run_ticks isPlaying speed (now # nows) st) \<le> 1
    \<and> step st \<le> step (run_ticks isPlaying speed (now # nows) st)
    \<and> (step st = 1 \<longrightarrow> step (tick isPlaying speed now st) = 1
          \<and> step (run_ticks isPlaying speed (now # nows) st) = 1)"
proof -
  have one: "0 \<le> step (tick isPlaying speed now st) \<and> step (tick isPlaying speed now st) \<le> 1
      \<and> step st \<le> step (tick isPlaying speed now st)"
    using tick_bounds [OF assms(1,3,4,5)] .
  have srt: "sorted (last_now st # now # nows)"
    using assms(1,2) by fastforce
  have many: "0 \<le> step (run_ticks isPlaying speed (now # nows) st)
      \<and> step (run_ticks isPlaying speed (now # nows) st) \<le> 1
      \<and> step st \<le> step (run_ticks isPlaying speed (now # nows) st)"
    using run_ticks_bounds [OF srt assms(3,4,5)] .
  have upd: "step (tick True speed now st) = min 1 (step st + ((now - last_now st) * speed) / 6000)"
    by (simp add: tick_step stepUpdater_min)
  have paused: "step (tick False speed now st) = step st"
    by (simp add: tick_step)
  from one many upd paused show ?thesis by linarith
qed

theorem step_stays_in_unit_interval_and_grows_witness:
  "last_now \<lparr>last_now = 0, step = 0.5\<rparr> \<le> 1500 \<and> sorted [1500, 3000, 3016 :: real]
   \<and> (0::real) \<le> 1 \<and> (0::real) \<le> step \<lparr>last_now = 0, step = 0.5\<rparr>
   \<and> step \<lparr>last_now = 0, step = 0.5\<rparr> \<le> 1
   \<and> step (tick True 1 1500 \<lparr>last_now = 0, step = 0.5\<rparr>) = 0.75
   \<and> step (run_ticks True 1 [1500, 3000, 3016] \<lparr>last_now = 0, step = 0.5\<rparr>) = 1
   \<and> step \<lparr>last_now = 3016, step = 1\<rparr> = 1
   \<and> step (run_ticks True 1 [3032, 3048] \<lparr>last_now = 3016, step = 1\<rparr>) = 1"
  using step_stays_in_unit_interval_and_grows
    [of "\<lparr>last_now = 0, step = 0.5\<rparr>" 1500 "[3000, 3016]" 1 True]
    step_stays_in_unit_interval_and_grows
    [of "\<lparr>last_now = 3016, step = 1\<rparr>" 3032 "[3048]" 1 True]
  by (simp add: tick_def stepUpdater_def dur_def Let_def)

subsection \<open>Default props\<close>

text \<open>
  Claim C6. An omitted optional prop takes its built-in default: in
  DoctorProcessAnimation \<open>steps\<close> is the five-entry list Lab Order, Prescription Order,
  Imaging Order, Follow up, Referral, \<open>start\<close> is false, \<open>staggerMs\<close> is \<open>750\<close>,
  \<open>disableFinalHandoff\<close> is false and \<open>clinicalNoteText\<close> is "Clinical Note"; in
  NurseAssessmentAnimation an omitted \<open>nurseIconUrl\<close> selects \<open>SvgNurseCap\<close>, not an image.
\<close>

theorem omitted_props_take_defaults:
  "(steps props = None \<longrightarrow>
      map title (steps_b (destructure props))
        = [''Lab Order'', ''Prescription Order'', ''Imaging Order'', ''Follow up'', ''Referral''])
   \<and> (start props = None \<longrightarrow> start_b (destructure props) = False)
   \<and> (staggerMs props = None \<longrightarrow> staggerMs_b (destructure props) = 750)
   \<and> (disableFinalHandoff props = None \<longrightarrow> disableFinalHandoff_b (destructure props) = False)
   \<and> (clinicalNoteText props = None \<longrightarrow> clinicalNoteText_b (destructure props) = ''Clinical Note'')
   \<and> NurseIcon None = SvgNurseCap"
  by (simp add: destructure_def NurseIcon_def falsy_def)

theorem omitted_props_take_defaults_witness:
  "steps \<lparr>doctorIconUrl = Some ''/icons/doctor-icon.png'', computerIconUrl = None,
          fileIconUrl = None, steps = None, start = None, resetToken = None,
          staggerMs = None, disableFinalHandoff = None, clinicalNoteText = None\<rparr> = None
   \<and> destructure \<lparr>doctorIconUrl = Some ''/icons/doctor-icon.png'', computerIconUrl = None,
          fileIconUrl = None, steps = None, start = None, resetToken = None,
          staggerMs = None, disableFinalHandoff = None, clinicalNoteText = None\<rparr>
      = \<lparr>steps_b = [\<lparr>title = ''Lab Order''\<rparr>, \<lparr>title = ''Prescription Order''\<rparr>,
                    \<lparr>title = ''Imaging Order''\<rparr>, \<lparr>title = ''Follow up''\<rparr>,
                    \<lparr>title = ''Referral''\<rparr>],
         start_b = False, staggerMs_b = 750, disableFinalHandoff_b = False,
         clinicalNoteText_b = ''Clinical Note''\<rparr>
   \<and> NurseIcon None = SvgNurseCap"
  using omitted_props_take_defaults
    [of "\<lparr>doctorIconUrl = Some ''/icons/doctor-icon.png'', computerIconUrl = None,
          fileIconUrl = None, steps = None, start = None, resetToken = None,
          staggerMs = None, disableFinalHandoff = None, clinicalNoteText = None\<rparr>"]
  by (simp add: destructure_def)

subsection \<open>The curve of the bridge\<close>

text \<open>
  Claim C10. \<open>cubicBezierPoint\<close> interpolates its end points: for all control points, at
  \<open>t = 0\<close> it returns \<open>(x1, y1)\<close> and at \<open>t = 1\<close> it returns \<open>(x2, y2)\<close>.
\<close>

theorem cubicBezierPoint_endpoints:
  "cubicBezierPoint 0 x1 y1 cx1 cy1 cx2 cy2 x2 y2 = (x1, y1)
   \<and> cubicBezierPoint 1 x1 y1 cx1 cy1 cx2 cy2 x2 y2 = (x2, y2)"
  by (simp add: cubicBezierPoint_def Let_def)

subsection \<open>Rounding to double precision\<close>

lemma round_even_error: "\<bar>of_int (round_even q) - q\<bar> \<le> 1/2"
  unfolding round_even_def Let_def by (auto; linarith)

lemma round_even_of_int: "round_even (of_int k) = k"
  by (simp add: round_even_def)

lemma round_even_nonneg: "0 \<le> q \<Longrightarrow> 0 \<le> round_even q"
  unfolding round_even_def Let_def by (auto simp: zero_le_floor)

lemma spacing_exp_upper:
  assumes "\<bar>x\<bar> * 2 ^ 1074 < 2 ^ (k + 53)"
  shows "spacing_exp x \<le> k"
proof -
  let ?n = "\<lfloor>\<bar>x\<bar> * 2 ^ 1074\<rfloor>"
  show ?thesis
  proof (cases "0 < ?n")
    case False
    then have "bitlen ?n = 0" by (simp add: bitlen_eq_zero_iff)
    then show ?thesis by (simp add: spacing_exp_def)
  next
    case True
    have "real_of_int ?n \<le> \<bar>x\<bar> * 2 ^ 1074" by (rule of_int_floor_le)
    then have "real_of_int ?n < 2 ^ (k + 53)" using assms by linarith
    then have lt: "?n < 2 ^ (k + 53)"
      by (metis of_int_less_iff of_int_numeral of_int_power)
    have "(2::int) ^ nat (bitlen ?n - 1) \<le> ?n" using bitlen_bounds [OF True] by simp
    then have "(2::int) ^ nat (bitlen ?n - 1) < 2 ^ (k + 53)" using lt by linarith
    then have "nat (bitlen ?n - 1) < k + 53" by (simp add: power_strict_increasing_iff)
    then show ?thesis by (simp add: spacing_exp_def)
  qed
qed

lemma spacing_lower:
  assumes "2 ^ 52 \<le> \<bar>x\<bar> * 2 ^ 1074"
  shows "2 ^ spacing_exp x * 2 ^ 52 \<le> \<bar>x\<bar> * 2 ^ 1074"
proof -
  let ?n = "\<lfloor>\<bar>x\<bar> * 2 ^ 1074\<rfloor>"
  have "(2::int) ^ 52 \<le> ?n"
    using assms by (simp add: le_floor_iff)
  moreover have "(0::int) < 2 ^ 52" by simp
  ultimately have pos: "0 < ?n" by linarith
  have ge: "53 \<le> bitlen ?n"
  proof (rule ccontr)
    assume "\<not> 53 \<le> bitlen ?n"
    then have "bitlen ?n \<le> 52" by simp
    then have "nat (bitlen ?n) \<le> 52" by simp
    then have "(2::int) ^ nat (bitlen ?n) \<le> 2 ^ 52" by (intro power_increasing) simp_all
    moreover have "?n < 2 ^ nat (bitlen ?n)" using bitlen_bounds [OF pos] by simp
    ultimately show False using \<open>(2::int) ^ 52 \<le> ?n\<close> by linarith
  qed
  have e: "nat (bitlen ?n - 1) = spacing_exp x + 52"
    using ge by (simp add: spacing_exp_def)
  have "(2::int) ^ (spacing_exp x + 52) \<le> ?n"
    using bitlen_bounds [OF pos] e by simp
  then have "real_of_int ((2::int) ^ (spacing_exp x + 52)) \<le> real_of_int ?n"
    by (simp only: of_int_le_iff)
  also have "\<dots> \<le> \<bar>x\<bar> * 2 ^ 1074" by (rule of_int_floor_le)
  finally show ?thesis by (simp add: power_add)
qed


lemma round_double_exact:
  assumes K: "\<bar>K\<bar> < 2 ^ 53" and x: "x = of_int K * 2 ^ k / 2 ^ 1074"
    and fin: "\<bar>x\<bar> < 2 ^ 1024 - 2 ^ 970"
  shows "round_double x = Num x"
proof -
  define G :: real where "G = 2 ^ 1074"
  have G: "0 < G" by (simp add: G_def)
  have absx: "\<bar>x\<bar> * G = of_int \<bar>K\<bar> * 2 ^ k"
    using G by (simp add: x G_def abs_mult)
  have "real_of_int \<bar>K\<bar> < 2 ^ 53" using K by (metis of_int_less_iff of_int_numeral of_int_power)
  then have "real_of_int \<bar>K\<bar> * 2 ^ k < 2 ^ 53 * 2 ^ k" by simp
  then have "\<bar>x\<bar> * 2 ^ 1074 < 2 ^ (k + 53)"
    using absx by (simp add: G_def power_add mult.commute)
  then have le: "spacing_exp x \<le> k" by (rule spacing_exp_upper)
  define s where "s = spacing_exp x"
  have k: "k = (k - s) + s" using le by (simp add: s_def)
  have pw: "(2::real) ^ k = 2 ^ (k - s) * 2 ^ s"
    by (subst k) (simp only: power_add)
  have quot: "x / (2 ^ s / G) = of_int (K * 2 ^ (k - s))"
    using G by (simp add: x pw G_def)
  have "of_int (round_even (x / (2 ^ s / G))) * (2 ^ s / G) = x"
    unfolding quot round_even_of_int using G by (simp add: x pw G_def)
  then show ?thesis
    using fin by (simp add: round_double_def Let_def s_def G_def)
qed

lemma round_double_normal:
  assumes norm: "2 ^ 52 \<le> x * 2 ^ 1074" and fin: "x < 2 ^ 1024 - 2 ^ 970"
  shows "\<exists>r. round_double x = Num r \<and> \<bar>r - x\<bar> \<le> x / 2 ^ 53"
proof -
  define G :: real where "G = 2 ^ 1074"
  have G: "0 < G" by (simp add: G_def)
  have "(0::real) < 2 ^ 52" by simp
  then have "0 < x * G"
    using norm unfolding G_def by linarith
  then have xpos: "0 < x" using G by (simp add: zero_less_mult_iff)
  define g where "g = 2 ^ spacing_exp x / G"
  have gpos: "0 < g" using G by (simp add: g_def)
  have "2 ^ spacing_exp x * 2 ^ 52 \<le> \<bar>x\<bar> * 2 ^ 1074"
    using norm xpos by (intro spacing_lower) simp
  then have "g * G * 2 ^ 52 \<le> x * G"
    using xpos G by (simp add: g_def G_def)
  then have "(g * 2 ^ 52) * G \<le> x * G" by (simp add: mult.assoc mult.commute)
  then have gle: "g * 2 ^ 52 \<le> x" using G by (simp only: mult_le_cancel_right_pos)
  define r where "r = of_int (round_even (x / g)) * g"
  have "\<bar>r - x\<bar> = \<bar>of_int (round_even (x / g)) - x / g\<bar> * g"
  proof -
    have "r - x = (of_int (round_even (x / g)) - x / g) * g"
      using gpos by (simp add: r_def left_diff_distrib)
    then show ?thesis using gpos by (simp add: abs_mult)
  qed
  also have "\<dots> \<le> (1/2) * g"
    using round_even_error [of "x / g"] gpos by (intro mult_right_mono) simp_all
  also have "\<dots> \<le> x / 2 ^ 53"
    using gle by simp
  finally have err: "\<bar>r - x\<bar> \<le> x / 2 ^ 53" .
  have "round_double x = Num r"
    using fin xpos by (simp add: round_double_def Let_def r_def g_def G_def)
  then show ?thesis using err by blast
qed

lemma round_double_grid:
  assumes "round_double x = Num r"
  shows "\<exists>K. r = of_int K / 2 ^ 1074 \<and> (0 \<le> x \<longrightarrow> 0 \<le> K)"
proof -
  define g :: real where "g = 2 ^ spacing_exp x / 2 ^ 1074"
  have gpos: "0 < g" by (simp add: g_def)
  have r: "r = of_int (round_even (x / g)) * g"
    using assms by (simp add: round_double_def Let_def g_def split: if_splits)
  let ?K = "round_even (x / g) * 2 ^ spacing_exp x"
  have "r = of_int ?K / 2 ^ 1074" by (simp add: r g_def)
  moreover have "0 \<le> ?K" if "0 \<le> x"
  proof -
    have "0 \<le> x / g" using that gpos by simp
    then have "0 \<le> round_even (x / g)" by (rule round_even_nonneg)
    then show ?thesis by simp
  qed
  ultimately show ?thesis by blast
qed

lemma round_double_on_grid:
  assumes x: "x = of_int K / 2 ^ 1074" and K: "0 \<le> K" and fin: "x < 2 ^ 1024 - 2 ^ 970"
  shows "\<exists>r. round_double x = Num r \<and> \<bar>r - x\<bar> \<le> x / 2 ^ 53"
proof (cases "2 ^ 52 \<le> x * 2 ^ 1074")
  case True
  then show ?thesis using fin by (rule round_double_normal)
next
  case False
  have xK: "x * 2 ^ 1074 = of_int K" by (simp add: x)
  have x0: "0 \<le> x" using K by (simp add: x)
  have "real_of_int K < 2 ^ 52" using False xK by simp
  then have "K < 2 ^ 52" by (metis of_int_less_iff of_int_numeral of_int_power)
  moreover have "(2::int) ^ 52 < 2 ^ 53" by simp
  ultimately have "\<bar>K\<bar> < 2 ^ 53" using K by linarith
  moreover have "x = of_int K * 2 ^ 0 / 2 ^ 1074" by (simp add: x)
  moreover have "\<bar>x\<bar> < 2 ^ 1024 - 2 ^ 970" using fin x0 by simp
  ultimately have "round_double x = Num x" by (rule round_double_exact)
  then show ?thesis using x0 by simp
qed


subsection \<open>Delays of the post-diagnosis steps\<close>

lemma round_double_zero: "round_double 0 = Num 0"
  by (simp add: round_double_def round_even_def)

lemma index_gap:
  assumes "i < j" and "j < 2 ^ 32"
  shows "real i * (1 + 1 / 2 ^ 53) < real j * (1 - 1 / 2 ^ 53)"
proof -
  have j: "real i + 1 \<le> real j" using assms(1) by linarith
  have "j \<le> 2 ^ 32" using assms(2) by simp
  then have "real j \<le> real ((2::nat) ^ 32)" by (simp only: of_nat_le_iff)
  then have b: "real j \<le> 4294967296" by simp
  show ?thesis using j b by simp
qed

lemma index_gap_handoff:
  assumes "i < n" and "n < 2 ^ 32"
  shows "real i * (1 + 1 / 2 ^ 53) \<le> real n * (1 - 1 / 2 ^ 53) * (1 - 1 / 2 ^ 53)"
proof -
  have j: "real i + 1 \<le> real n" using assms(1) by linarith
  have "n \<le> 2 ^ 32" using assms(2) by simp
  then have "real n \<le> real ((2::nat) ^ 32)" by (simp only: of_nat_le_iff)
  then have b: "real n \<le> 4294967296" by simp
  show ?thesis using j b by simp
qed


lemma round_double_finite:
  "finite_double (round_double x) \<Longrightarrow> \<bar>x\<bar> < 2 ^ 1024 - 2 ^ 970"
  by (simp add: round_double_def split: if_splits)

lemma product_rounding:
  assumes q: "q = of_int K / 2 ^ 1074" and K: "0 \<le> K"
    and fin: "q * real n < 2 ^ 1024 - 2 ^ 970" and k: "k \<le> n"
  shows "\<exists>r. round_double (q * real k) = Num r
    \<and> q * real k - q * real k / 2 ^ 53 \<le> r \<and> r \<le> q * real k + q * real k / 2 ^ 53"
proof -
  have q0: "0 \<le> q" using K by (simp add: q)
  have "q * real k \<le> q * real n"
    using k q0 by (intro mult_left_mono) simp_all
  then have fin': "q * real k < 2 ^ 1024 - 2 ^ 970" using fin by linarith
  have grid: "q * real k = of_int (K * int k) / 2 ^ 1074" by (simp add: q)
  have "0 \<le> K * int k" using K by simp
  from round_double_on_grid [OF grid this fin']
  obtain r where r: "round_double (q * real k) = Num r"
    and e: "\<bar>r - q * real k\<bar> \<le> q * real k / 2 ^ 53" by blast
  have "q * real k - q * real k / 2 ^ 53 \<le> r" and "r \<le> q * real k + q * real k / 2 ^ 53"
    using e by linarith+
  then show ?thesis using r by blast
qed

lemma finite_product:
  assumes "0 < n" and "finite_double (dmul (Num (real n)) d)"
  shows "\<exists>q. d = Num q \<and> \<bar>real n * q\<bar> < 2 ^ 1024 - 2 ^ 970"
proof (cases d)
  case (Num q)
  then have "finite_double (round_double (real n * q))" using assms(2) by simp
  then have "\<bar>real n * q\<bar> < 2 ^ 1024 - 2 ^ 970" by (rule round_double_finite)
  then show ?thesis using Num by blast
qed (use assms in simp_all)

lemma nonneg_stagger:
  assumes "dle (Num 0) sm"
  shows "sm = PosInf \<or> (\<exists>m. sm = Num m \<and> 0 \<le> m)"
  using assms by (cases sm) simp_all

lemma stepItems_nth:
  "i < length ss \<Longrightarrow>
   stepItems ss sm ! i = (title (ss ! i), dmul (perItemDelaySec sm) (Num (real i)))"
  by (simp add: stepItems_def nth_enumerate_eq)

lemma stepItems_length: "length (stepItems ss sm) = length ss"
  by (simp add: stepItems_def)

text \<open>The facts about the per-item delay that follow from a finite handoff product.\<close>

lemma per_item_grid:
  assumes ge0: "dle (Num 0) sm" and n: "0 < n"
    and fin: "finite_double (dmul (Num (real n)) (perItemDelaySec sm))"
  shows "\<exists>q K. perItemDelaySec sm = Num q \<and> q = of_int K / 2 ^ 1074 \<and> 0 \<le> K
    \<and> q * real n < 2 ^ 1024 - 2 ^ 970"
proof -
  from finite_product [OF n fin] obtain q
    where per: "perItemDelaySec sm = Num q" and b: "\<bar>real n * q\<bar> < 2 ^ 1024 - 2 ^ 970"
    by blast
  from nonneg_stagger [OF ge0] per obtain m where sm: "sm = Num m" and m: "0 \<le> m"
    by (auto simp add: perItemDelaySec_def)
  have rd: "round_double (m / 2000) = Num q"
    using per by (simp add: perItemDelaySec_def sm)
  have "0 \<le> m / 2000" using m by simp
  with round_double_grid [OF rd] obtain K where "q = of_int K / 2 ^ 1074" and "0 \<le> K"
    by blast
  moreover have "q * real n < 2 ^ 1024 - 2 ^ 970"
    using b by (simp add: mult.commute abs_less_iff)
  ultimately show ?thesis using per by blast
qed

lemma delays_strictly_increasing:
  assumes q: "q = of_int K / 2 ^ 1074" and K: "0 \<le> K" and pos: "0 < q"
    and fin: "q * real n < 2 ^ 1024 - 2 ^ 970"
    and ij: "i < j" and jn: "j \<le> n" and n: "n < 2 ^ 32"
  shows "dless (dmul (Num q) (Num (real i))) (dmul (Num q) (Num (real j)))"
proof -
  have "i \<le> n" using ij jn by simp
  from product_rounding [OF q K fin this] obtain ri
    where ri: "round_double (q * real i) = Num ri"
      and ri_hi: "ri \<le> q * real i + q * real i / 2 ^ 53" by blast
  from product_rounding [OF q K fin jn] obtain rj
    where rj: "round_double (q * real j) = Num rj"
      and rj_lo: "q * real j - q * real j / 2 ^ 53 \<le> rj" by blast
  have "j < 2 ^ 32" using jn n by simp
  from index_gap [OF ij this]
  have "q * (real i * (1 + 1 / 2 ^ 53)) < q * (real j * (1 - 1 / 2 ^ 53))"
    using pos by (simp only: mult_less_cancel_left_pos)
  then have "q * real i + q * real i / 2 ^ 53 < q * real j - q * real j / 2 ^ 53"
    by (simp add: algebra_simps)
  then have "ri < rj" using ri_hi rj_lo by linarith
  then show ?thesis by (simp add: ri rj)
qed

lemma delays_zero:
  assumes "perItemDelaySec sm = Num 0"
  shows "dmul (perItemDelaySec sm) (Num (real i)) = Num 0"
  by (simp add: assms round_double_zero)

lemma literal_fifth:
  "\<exists>c K. round_double 0.2 = Num c \<and> c = of_int K / 2 ^ 1074 \<and> 0 \<le> K
     \<and> 2 ^ 52 \<le> c * 2 ^ 1074"
proof -
  have "\<exists>r. round_double 0.2 = Num r \<and> \<bar>r - 0.2\<bar> \<le> 0.2 / 2 ^ 53"
    by (rule round_double_normal) simp_all
  then obtain c where c: "round_double 0.2 = Num c" and e: "\<bar>c - 0.2\<bar> \<le> 0.2 / 2 ^ 53"
    by blast
  from round_double_grid [OF c] obtain K where "c = of_int K / 2 ^ 1074" and "0 \<le> K"
    by auto
  moreover have "0.2 / 2 ^ 53 \<le> (1::real) / 10" by simp
  then have "1 / 10 \<le> c" using e by linarith
  then have "(1 / 10) * 2 ^ 1074 \<le> c * 2 ^ 1074"
    by (simp only: mult_le_cancel_right_pos zero_less_power zero_less_numeral)
  then have "2 ^ 52 \<le> c * 2 ^ 1074" by simp
  ultimately show ?thesis using c by blast
qed

lemma delay_before_handoff:
  assumes q: "q = of_int K / 2 ^ 1074" and K: "0 \<le> K"
    and fin: "q * real n < 2 ^ 1024 - 2 ^ 970"
    and i: "i < n" and n: "n < 2 ^ 32"
  shows "dless (dmul (Num q) (Num (real i)))
           (dadd (dmul (Num (real n)) (Num q)) (round_double 0.2))"
proof -
  have q0: "0 \<le> q" using K by (simp add: q)
  have "i \<le> n" using i by simp
  from product_rounding [OF q K fin this] obtain ri
    where ri: "round_double (q * real i) = Num ri"
      and ri_hi: "ri \<le> q * real i + q * real i / 2 ^ 53" by blast
  from product_rounding [OF q K fin order_refl] obtain p
    where p: "round_double (q * real n) = Num p"
      and p_lo: "q * real n - q * real n / 2 ^ 53 \<le> p" by blast
  have p': "dmul (Num (real n)) (Num q) = Num p"
    using p by (simp add: mult.commute)
  have "0 \<le> q * real n" using q0 by simp
  from round_double_grid [OF p] this obtain Kp where Kp: "p = of_int Kp / 2 ^ 1074" "0 \<le> Kp"
    by blast
  from literal_fifth obtain c Kc where c: "round_double 0.2 = Num c"
    and Kc: "c = of_int Kc / 2 ^ 1074" "0 \<le> Kc" and cn: "2 ^ 52 \<le> c * 2 ^ 1074"
    by blast
  have p0: "0 \<le> p" using Kp by simp
  have c0: "0 < c"
  proof -
    have "(0::real) < 2 ^ 52" by simp
    then have "0 < c * 2 ^ 1074" using cn by linarith
    then show ?thesis by (simp add: zero_less_mult_iff)
  qed
  have gap: "q * (real i * (1 + 1 / 2 ^ 53)) \<le> q * (real n * (1 - 1 / 2 ^ 53) * (1 - 1 / 2 ^ 53))"
    using index_gap_handoff [OF i n] q0 by (rule mult_left_mono)
  have "(q * real n - q * real n / 2 ^ 53) * (1 - 1 / 2 ^ 53) \<le> p * (1 - 1 / 2 ^ 53)"
    using p_lo by (intro mult_right_mono) simp_all
  then have below: "q * real i + q * real i / 2 ^ 53 \<le> p - p / 2 ^ 53"
    using gap by (simp add: algebra_simps)
  have lhs: "dmul (Num q) (Num (real i)) = Num ri"
    using ri by simp
  have rhs: "dadd (dmul (Num (real n)) (Num q)) (round_double 0.2) = round_double (p + c)"
    by (simp only: p' c dadd.simps)
  show ?thesis
  proof (cases "p + c < 2 ^ 1024 - 2 ^ 970")
    case True
    have "2 ^ 52 \<le> (p + c) * 2 ^ 1074"
    proof -
      have "0 \<le> p * 2 ^ 1074" using p0 by simp
      then show ?thesis using cn by (simp add: distrib_right)
    qed
    from round_double_normal [OF this True] obtain h
      where h: "round_double (p + c) = Num h" and e: "\<bar>h - (p + c)\<bar> \<le> (p + c) / 2 ^ 53"
      by blast
    have "(p + c) - (p + c) / 2 ^ 53 \<le> h" using e by linarith
    moreover have "p - p / 2 ^ 53 < (p + c) - (p + c) / 2 ^ 53"
    proof -
      have "c / 2 ^ 53 < c" using c0 by simp
      moreover have "(p + c) / 2 ^ 53 = p / 2 ^ 53 + c / 2 ^ 53"
        by (rule add_divide_distrib)
      ultimately show ?thesis by linarith
    qed
    ultimately have "ri < h" using ri_hi below by linarith
    then show ?thesis by (simp only: lhs rhs h dless.simps)
  next
    case False
    then have "round_double (p + c) = PosInf"
      using p0 c0 by (simp add: round_double_def)
    then show ?thesis by (simp only: lhs rhs dless.simps)
  qed
qed

lemma underflow_per_item: "perItemDelaySec (Num (1 / 2 ^ 1074)) = Num 0"
  by (simp add: perItemDelaySec_def round_double_def spacing_exp_def round_even_def)

text \<open>
  With \<open>staggerMs = 5e-324\<close>, the smallest positive double \<open>2^(-1074)\<close>, the quotient
  \<open>staggerMs / 2000\<close> rounds to \<open>0\<close> and every delay is \<open>0\<close>: the delays are not strictly
  increasing although \<open>staggerMs > 0\<close>. With \<open>staggerMs = Infinity\<close>, which is \<open>\<ge> 0\<close>, the
  first delay is \<open>Infinity * 0 = NaN\<close> and the handoff delay \<open>Infinity\<close> is not greater
  than it.
\<close>

theorem step_delays_underflow_counterexample:
  "dle (Num 0) (Num (1 / 2 ^ 1074)) \<and> dless (Num 0) (Num (1 / 2 ^ 1074))
   \<and> map snd (stepItems [\<lparr>title = ''Lab Order''\<rparr>, \<lparr>title = ''Prescription Order''\<rparr>,
                          \<lparr>title = ''Imaging Order''\<rparr>] (Num (1 / 2 ^ 1074)))
       = [Num 0, Num 0, Num 0]
   \<and> \<not> dless (snd (stepItems [\<lparr>title = ''Lab Order''\<rparr>, \<lparr>title = ''Prescription Order''\<rparr>,
                          \<lparr>title = ''Imaging Order''\<rparr>] (Num (1 / 2 ^ 1074)) ! 0))
               (snd (stepItems [\<lparr>title = ''Lab Order''\<rparr>, \<lparr>title = ''Prescription Order''\<rparr>,
                          \<lparr>title = ''Imaging Order''\<rparr>] (Num (1 / 2 ^ 1074)) ! 1))
   \<and> dle (Num 0) PosInf
   \<and> snd (stepItems [\<lparr>title = ''Lab Order''\<rparr>] PosInf ! 0) = NaN
   \<and> handoffDelaySec [\<lparr>title = ''Lab Order''\<rparr>] PosInf = PosInf
   \<and> \<not> dless (snd (stepItems [\<lparr>title = ''Lab Order''\<rparr>] PosInf ! 0))
               (handoffDelaySec [\<lparr>title = ''Lab Order''\<rparr>] PosInf)"
proof -
  have inf: "perItemDelaySec PosInf = PosInf"
    by (simp add: perItemDelaySec_def)
  from literal_fifth obtain c where c: "round_double 0.2 = Num c"
    by blast
  have hand: "handoffDelaySec [\<lparr>title = ''Lab Order''\<rparr>] PosInf = PosInf"
    unfolding handoffDelaySec_def inf c by simp
  have nan: "snd (stepItems [\<lparr>title = ''Lab Order''\<rparr>] PosInf ! 0) = NaN"
    unfolding stepItems_def inf by simp
  have zeros: "map snd (stepItems [\<lparr>title = ''Lab Order''\<rparr>, \<lparr>title = ''Prescription Order''\<rparr>,
                          \<lparr>title = ''Imaging Order''\<rparr>] (Num (1 / 2 ^ 1074)))
       = [Num 0, Num 0, Num 0]"
    unfolding stepItems_def underflow_per_item by (simp add: round_double_zero)
  have under: "\<not> dless (snd (stepItems [\<lparr>title = ''Lab Order''\<rparr>, \<lparr>title = ''Prescription Order''\<rparr>,
                          \<lparr>title = ''Imaging Order''\<rparr>] (Num (1 / 2 ^ 1074)) ! 0))
               (snd (stepItems [\<lparr>title = ''Lab Order''\<rparr>, \<lparr>title = ''Prescription Order''\<rparr>,
                          \<lparr>title = ''Imaging Order''\<rparr>] (Num (1 / 2 ^ 1074)) ! 1))"
    unfolding stepItems_def underflow_per_item by (simp add: round_double_zero)
  have pos: "dle (Num 0) (Num (1 / 2 ^ 1074)) \<and> dless (Num 0) (Num (1 / 2 ^ 1074))"
    by simp
  have "\<not> dless (snd (stepItems [\<lparr>title = ''Lab Order''\<rparr>] PosInf ! 0))
               (handoffDelaySec [\<lparr>title = ''Lab Order''\<rparr>] PosInf)"
    unfolding nan hand by simp
  then show ?thesis
    using pos zeros under nan hand by simp
qed

text \<open>
  Claim C4, amended. In DoctorProcessAnimation, for \<open>staggerMs \<ge> 0\<close> and a step index
  \<open>i < steps.length\<close> (an array has fewer than \<open>2^(32)\<close> elements) such that
  \<open>steps.length * (staggerMs / 2000)\<close> is finite, the delay of the \<open>i\<close>-th post-diagnosis
  step is \<open>(staggerMs / 2000) * i\<close> seconds, computed in double precision, and the delay of
  the file handoff, \<open>steps.length * (staggerMs / 2000) + 0.2\<close> seconds, is strictly greater
  than the delay of every step. The delays are strictly increasing in \<open>i\<close> when the
  computed \<open>staggerMs / 2000\<close> is positive; otherwise (\<open>staggerMs\<close> is \<open>0\<close>, or so small that
  the quotient rounds to \<open>0\<close>) every delay is \<open>0\<close>.
\<close>

theorem step_delays_staggered_before_handoff:
  assumes ge0: "dle (Num 0) sm" and i: "i < length ss" and len: "length ss < 2 ^ 32"
    and fin: "finite_double (dmul (Num (real (length ss))) (perItemDelaySec sm))"
  shows "length (stepItems ss sm) = length ss
    \<and> stepItems ss sm ! i = (title (ss ! i), dmul (perItemDelaySec sm) (Num (real i)))
    \<and> (\<forall>m. sm = Num m \<longrightarrow> perItemDelaySec sm = round_double (m / 2000))
    \<and> handoffDelaySec ss sm
        = dadd (dmul (Num (real (length ss))) (perItemDelaySec sm)) (round_double 0.2)
    \<and> dless (snd (stepItems ss sm ! i)) (handoffDelaySec ss sm)
    \<and> (\<forall>j. i < j \<and> j < length ss \<longrightarrow>
          (if dless (Num 0) (perItemDelaySec sm)
           then dless (snd (stepItems ss sm ! i)) (snd (stepItems ss sm ! j))
           else snd (stepItems ss sm ! i) = Num 0 \<and> snd (stepItems ss sm ! j) = Num 0))"
proof -
  have n: "0 < length ss" using i by linarith
  from per_item_grid [OF ge0 n fin] obtain q K
    where per: "perItemDelaySec sm = Num q" and q: "q = of_int K / 2 ^ 1074" and K: "0 \<le> K"
      and b: "q * real (length ss) < 2 ^ 1024 - 2 ^ 970" by blast
  have formula: "\<forall>m. sm = Num m \<longrightarrow> perItemDelaySec sm = round_double (m / 2000)"
    by (simp add: perItemDelaySec_def)
  have hand: "dless (snd (stepItems ss sm ! i)) (handoffDelaySec ss sm)"
    using delay_before_handoff [OF q K b i len]
    by (simp add: stepItems_nth [OF i] handoffDelaySec_def per)
  have order: "if dless (Num 0) (perItemDelaySec sm)
           then dless (snd (stepItems ss sm ! i)) (snd (stepItems ss sm ! j))
           else snd (stepItems ss sm ! i) = Num 0 \<and> snd (stepItems ss sm ! j) = Num 0"
    if ij: "i < j" and j: "j < length ss" for j
  proof (cases "0 < q")
    case True
    have "j \<le> length ss" using j by simp
    from delays_strictly_increasing [OF q K True b ij this len] True show ?thesis
      by (simp add: stepItems_nth [OF i] stepItems_nth [OF j] per)
  next
    case False
    then have "q = 0" using K by (simp add: q)
    then show ?thesis
      by (simp add: stepItems_nth [OF i] stepItems_nth [OF j] per round_double_zero)
  qed
  have order': "\<forall>j. i < j \<and> j < length ss \<longrightarrow>
          (if dless (Num 0) (perItemDelaySec sm)
           then dless (snd (stepItems ss sm ! i)) (snd (stepItems ss sm ! j))
           else snd (stepItems ss sm ! i) = Num 0 \<and> snd (stepItems ss sm ! j) = Num 0)"
    using order by blast
  have heq: "handoffDelaySec ss sm
        = dadd (dmul (Num (real (length ss))) (perItemDelaySec sm)) (round_double 0.2)"
    by (simp add: handoffDelaySec_def)
  show ?thesis
    by (intro conjI stepItems_length stepItems_nth [OF i] formula heq hand order')
qed


theorem step_delays_staggered_before_handoff_witness:
  "dle (Num 0) (Num 750)
   \<and> 2 < length [\<lparr>title = ''Lab Order''\<rparr>, \<lparr>title = ''Prescription Order''\<rparr>,
                 \<lparr>title = ''Imaging Order''\<rparr>, \<lparr>title = ''Follow up''\<rparr>,
                 \<lparr>title = ''Referral''\<rparr>]
   \<and> length [\<lparr>title = ''Lab Order''\<rparr>, \<lparr>title = ''Prescription Order''\<rparr>,
                 \<lparr>title = ''Imaging Order''\<rparr>, \<lparr>title = ''Follow up''\<rparr>,
                 \<lparr>title = ''Referral''\<rparr>] < 2 ^ 32
   \<and> perItemDelaySec (Num 750) = Num 0.375
   \<and> dmul (Num 5) (perItemDelaySec (Num 750)) = Num 1.875
   \<and> stepItems [\<lparr>title = ''Lab Order''\<rparr>, \<lparr>title = ''Prescription Order''\<rparr>,
                 \<lparr>title = ''Imaging Order''\<rparr>, \<lparr>title = ''Follow up''\<rparr>,
                 \<lparr>title = ''Referral''\<rparr>] (Num 750) ! 2 = (''Imaging Order'', Num 0.75)
   \<and> dless (Num 0.75)
         (handoffDelaySec [\<lparr>title = ''Lab Order''\<rparr>, \<lparr>title = ''Prescription Order''\<rparr>,
                 \<lparr>title = ''Imaging Order''\<rparr>, \<lparr>title = ''Follow up''\<rparr>,
                 \<lparr>title = ''Referral''\<rparr>] (Num 750))
   \<and> dless (Num 0.75)
         (snd (stepItems [\<lparr>title = ''Lab Order''\<rparr>, \<lparr>title = ''Prescription Order''\<rparr>,
                 \<lparr>title = ''Imaging Order''\<rparr>, \<lparr>title = ''Follow up''\<rparr>,
                 \<lparr>title = ''Referral''\<rparr>] (Num 750) ! 4))"
proof -
  let ?ss = "[\<lparr>title = ''Lab Order''\<rparr>, \<lparr>title = ''Prescription Order''\<rparr>,
                 \<lparr>title = ''Imaging Order''\<rparr>, \<lparr>title = ''Follow up''\<rparr>,
                 \<lparr>title = ''Referral''\<rparr>]"
  have per: "perItemDelaySec (Num 750) = Num 0.375"
    using round_double_exact [of 3 "0.375" 1071] by (simp add: perItemDelaySec_def)
  have prod: "dmul (Num 5) (Num 0.375) = Num 1.875"
    using round_double_exact [of 15 "1.875" 1071] by simp
  have d2: "dmul (Num 0.375) (Num 2) = Num 0.75"
    using round_double_exact [of 3 "0.75" 1072] by simp
  have pos: "dless (Num 0) (perItemDelaySec (Num 750))"
    by (simp add: per)
  have h1: "dle (Num 0) (Num 750)" by simp
  have h2: "2 < length ?ss" by simp
  have h3: "length ?ss < 2 ^ 32" by simp
  have h4: "finite_double (dmul (Num (real (length ?ss))) (perItemDelaySec (Num 750)))"
    using prod by (simp add: per)
  note main = step_delays_staggered_before_handoff [OF h1 h2 h3 h4]
  from main have item: "stepItems ?ss (Num 750) ! 2
          = (title (?ss ! 2), dmul (perItemDelaySec (Num 750)) (Num (real 2)))"
    by blast
  then have item': "stepItems ?ss (Num 750) ! 2 = (''Imaging Order'', Num 0.75)"
    using d2 by (simp add: per)
  from main have "dless (snd (stepItems ?ss (Num 750) ! 2)) (handoffDelaySec ?ss (Num 750))"
    by blast
  then have hand: "dless (Num 0.75) (handoffDelaySec ?ss (Num 750))"
    by (simp only: item' snd_conv)
  from main have "\<forall>j. 2 < j \<and> j < length ?ss \<longrightarrow>
          (if dless (Num 0) (perItemDelaySec (Num 750))
           then dless (snd (stepItems ?ss (Num 750) ! 2)) (snd (stepItems ?ss (Num 750) ! j))
           else snd (stepItems ?ss (Num 750) ! 2) = Num 0
                \<and> snd (stepItems ?ss (Num 750) ! j) = Num 0)"
    by blast
  then have "2 < (4::nat) \<and> 4 < length ?ss \<longrightarrow>
          (if dless (Num 0) (perItemDelaySec (Num 750))
           then dless (snd (stepItems ?ss (Num 750) ! 2)) (snd (stepItems ?ss (Num 750) ! 4))
           else snd (stepItems ?ss (Num 750) ! 2) = Num 0
                \<and> snd (stepItems ?ss (Num 750) ! 4) = Num 0)"
    by (rule spec)
  then have "dless (snd (stepItems ?ss (Num 750) ! 2)) (snd (stepItems ?ss (Num 750) ! 4))"
    using pos by simp
  then have later: "dless (Num 0.75) (snd (stepItems ?ss (Num 750) ! 4))"
    by (simp only: item' snd_conv)
  have prod': "dmul (Num 5) (perItemDelaySec (Num 750)) = Num 1.875"
    using prod by (simp add: per)
  show ?thesis
    by (intro conjI h1 h2 h3 per prod' item' hand later)
qed

subsection \<open>The file packet\<close>

lemma easeInOutQuad_range:
  assumes "0 \<le> t" and "t \<le> 1"
  shows "0 \<le> easeInOutQuad t \<and> easeInOutQuad t \<le> 1"
proof (cases "t < 0.5")
  case True
  have "t * t \<le> (1/2) * (1/2)"
    using True assms(1) by (intro mult_mono) simp_all
  then show ?thesis
    using True assms(1) by (simp add: easeInOutQuad_def)
next
  case False
  let ?w = "- 2 * t + 2"
  have w: "0 \<le> ?w" "?w \<le> 1" using False assms(2) by simp_all
  have "?w ^ 2 \<le> 1" using w by (simp add: power_le_one)
  moreover have "0 \<le> ?w ^ 2" by simp
  ultimately show ?thesis
    using False by (simp add: easeInOutQuad_def)
qed

lemma arc_point_on_half_circle:
  assumes "0 \<le> p" and "p \<le> 1"
  shows "(fst (arcPointAtLength (arcTotalLength * p)) - 165)\<^sup>2
          + (snd (arcPointAtLength (arcTotalLength * p)) - 40)\<^sup>2 = 155\<^sup>2
         \<and> snd (arcPointAtLength (arcTotalLength * p)) \<le> 40"
proof -
  have ang: "arcTotalLength * p / 155 = pi * p"
    by (simp add: arcTotalLength_def)
  have "0 \<le> pi * p" using assms(1) by simp
  moreover have "pi * p \<le> pi" using assms(2) by (simp add: mult_left_le)
  ultimately have s: "0 \<le> sin (pi * p)" by (rule sin_ge_zero)
  have circ: "(155 * cos (pi * p))\<^sup>2 + (155 * sin (pi * p))\<^sup>2 = 155\<^sup>2"
  proof -
    have "(155 * cos (pi * p))\<^sup>2 + (155 * sin (pi * p))\<^sup>2
        = 155\<^sup>2 * ((cos (pi * p))\<^sup>2 + (sin (pi * p))\<^sup>2)"
      by (simp only: power_mult_distrib distrib_left)
    also have "\<dots> = 155\<^sup>2"
      by (simp only: sin_cos_squared_add2 mult_1_right)
    finally show ?thesis .
  qed
  show ?thesis
    using s circ by (simp add: arcPointAtLength_def ang)
qed

text \<open>
  \<open>FileTransfer\<close> tests \<open>!fileIconUrl\<close>, so it also renders nothing for a \<open>fileIconUrl\<close>
  that is defined but empty: with the empty string and \<open>progress = 0.5\<close> the result is
  \<open>null\<close> although the URL is not \<open>undefined\<close> and \<open>0 < progress \<le> 1\<close>.
\<close>

theorem FileTransfer_empty_url_counterexample:
  "\<not> (FileTransfer arcTotalLength arcPointAtLength 0.5 (Some []) = None
       \<longleftrightarrow> (Some [] = (None :: string option) \<or> (0.5::real) \<le> 0 \<or> (0.5::real) > 1))"
  by (simp add: FileTransfer_def falsy_def)

text \<open>
  Claim C5, amended. \<open>FileTransfer\<close> renders nothing (returns \<open>null\<close>) if and only if
  \<open>fileIconUrl\<close> is \<open>undefined\<close> or the empty string, or \<open>progress \<le> 0\<close>, or
  \<open>progress > 1\<close>. For every non-empty \<open>fileIconUrl\<close> and every \<open>progress\<close> with
  \<open>0 < progress \<le> 1\<close> it renders the file icon at the point of the path at length
  \<open>L * easeInOutQuad(clamp01(progress))\<close>, as percentages of the \<open>340 \<times> 80\<close> view box; the
  eased parameter lies in \<open>[0,1]\<close>, and on the half-circle arc of the path data that point
  lies on the circle of radius \<open>155\<close> around \<open>(165, 40)\<close>, not below its end points.
\<close>

theorem FileTransfer_null_iff_falsy_or_out_of_range:
  "(FileTransfer L gp progress url = None
      \<longleftrightarrow> (url = None \<or> url = Some [] \<or> progress \<le> 0 \<or> progress > 1))
   \<and> (\<forall>u. url = Some u \<and> u \<noteq> [] \<and> 0 < progress \<and> progress \<le> 1 \<longrightarrow>
         FileTransfer L gp progress url
           = Some \<lparr>leftPct = fst (gp (L * easeInOutQuad (clamp01 progress))) / 340 * 100,
                   topPct = snd (gp (L * easeInOutQuad (clamp01 progress))) / 80 * 100,
                   src = u\<rparr>
         \<and> 0 \<le> easeInOutQuad (clamp01 progress) \<and> easeInOutQuad (clamp01 progress) \<le> 1
         \<and> (fst (arcPointAtLength (arcTotalLength * easeInOutQuad (clamp01 progress))) - 165)\<^sup>2
             + (snd (arcPointAtLength (arcTotalLength * easeInOutQuad (clamp01 progress))) - 40)\<^sup>2
             = 155\<^sup>2
         \<and> snd (arcPointAtLength (arcTotalLength * easeInOutQuad (clamp01 progress))) \<le> 40)"
proof -
  have null: "FileTransfer L gp progress url = None
      \<longleftrightarrow> (url = None \<or> url = Some [] \<or> progress \<le> 0 \<or> progress > 1)"
    by (cases url) (auto simp add: FileTransfer_def falsy_def Let_def)
  have shown: "FileTransfer L gp progress url
           = Some \<lparr>leftPct = fst (gp (L * easeInOutQuad (clamp01 progress))) / 340 * 100,
                   topPct = snd (gp (L * easeInOutQuad (clamp01 progress))) / 80 * 100,
                   src = u\<rparr>"
    if "url = Some u" and "u \<noteq> []" and "0 < progress" and "progress \<le> 1" for u
    using that by (simp add: FileTransfer_def falsy_def Let_def)
  have eased: "0 \<le> easeInOutQuad (clamp01 progress) \<and> easeInOutQuad (clamp01 progress) \<le> 1"
    using clamp01_range [of progress] by (simp add: easeInOutQuad_range)
  from null shown eased arc_point_on_half_circle show ?thesis
    by blast
qed

theorem FileTransfer_null_iff_falsy_or_out_of_range_witness:
  "Some ''/icons/file-icon.png'' = Some ''/icons/file-icon.png''
   \<and> ''/icons/file-icon.png'' \<noteq> [] \<and> (0::real) < 0.5 \<and> (0.5::real) \<le> 1
   \<and> FileTransfer arcTotalLength arcPointAtLength 0.5 (Some ''/icons/file-icon.png'')
       = Some \<lparr>leftPct = 165 / 340 * 100, topPct = - 115 / 80 * 100,
               src = ''/icons/file-icon.png''\<rparr>
   \<and> easeInOutQuad (clamp01 0.5) = 0.5
   \<and> FileTransfer arcTotalLength arcPointAtLength 0.5 None = None
   \<and> FileTransfer arcTotalLength arcPointAtLength 0 (Some ''/icons/file-icon.png'') = None
   \<and> FileTransfer arcTotalLength arcPointAtLength 1.5 (Some ''/icons/file-icon.png'') = None"
  using FileTransfer_null_iff_falsy_or_out_of_range
      [of arcTotalLength arcPointAtLength "0.5" "Some ''/icons/file-icon.png''"]
    FileTransfer_null_iff_falsy_or_out_of_range
      [of arcTotalLength arcPointAtLength "0.5" None]
    FileTransfer_null_iff_falsy_or_out_of_range
      [of arcTotalLength arcPointAtLength 0 "Some ''/icons/file-icon.png''"]
    FileTransfer_null_iff_falsy_or_out_of_range
      [of arcTotalLength arcPointAtLength "1.5" "Some ''/icons/file-icon.png''"]
  by (simp add: easeInOutQuad_def clamp01_def arcTotalLength_def arcPointAtLength_def)

subsection \<open>The animation-frame loop of the bridge\<close>

lemma bridgeProgress_range:
  assumes "0 < d" and "t0 \<le> now"
  shows "0 \<le> bridgeProgress t0 d now \<and> bridgeProgress t0 d now \<le> 1"
proof -
  have "0 \<le> (now - t0) / d" using assms by simp
  then show ?thesis by (simp add: bridgeProgress_def)
qed

lemma bridgeProgress_mono:
  assumes "0 < d" and "now \<le> now'"
  shows "bridgeProgress t0 d now \<le> bridgeProgress t0 d now'"
proof -
  have "(now - t0) / d \<le> (now' - t0) / d"
    using assms by (simp add: divide_right_mono)
  then show ?thesis by (simp add: bridgeProgress_def min_def)
qed

lemma bridge_effect_inv: "bridge_effect bridgeRun h0 p0 = Some st \<Longrightarrow> bridge_inv st"
  by (auto simp add: bridge_effect_def requestAnimationFrame_def bridge_inv_def Let_def
      split: if_splits)

lemma bridge_tick_pending:
  "\<not> cancelled st \<Longrightarrow> pending st = [] \<Longrightarrow>
   bridge_inv (bridge_tick t0 d now st)
   \<and> (pending (bridge_tick t0 d now st) \<noteq> [] \<longleftrightarrow> bridgeProgress t0 d now < 1)
   \<and> bridgeProg (bridge_tick t0 d now st) = bridgeProgress t0 d now"
  by (simp add: bridge_tick_def requestAnimationFrame_def bridge_inv_def Let_def)

lemma animation_frame_idle: "pending st = [] \<Longrightarrow> animation_frame t0 d now st = st"
  by (simp add: animation_frame_def)

lemma animation_frame_fires:
  assumes "\<not> cancelled st" and "pending st = [h]"
  shows "animation_frame t0 d now st = bridge_tick t0 d now (st\<lparr>pending := []\<rparr>)"
  using assms by (simp add: animation_frame_def)

lemma animation_frame_inv:
  assumes "bridge_inv st"
  shows "bridge_inv (animation_frame t0 d now st)"
proof (cases "pending st = []")
  case True
  then show ?thesis using assms by (simp add: animation_frame_idle)
next
  case False
  then have nc: "\<not> cancelled st" and pd: "pending st = [raf st]"
    using assms by (auto simp add: bridge_inv_def)
  show ?thesis
    using bridge_tick_pending [of "st\<lparr>pending := []\<rparr>" t0 d now] nc
    by (simp add: animation_frame_fires [OF nc pd])
qed

lemma animation_frame_requests:
  assumes "bridge_inv st"
  shows "pending (animation_frame t0 d now st) \<noteq> [] \<longrightarrow> bridgeProgress t0 d now < 1"
proof (cases "pending st = []")
  case True
  then show ?thesis by (simp add: animation_frame_idle)
next
  case False
  then have nc: "\<not> cancelled st" and pd: "pending st = [raf st]"
    using assms by (auto simp add: bridge_inv_def)
  show ?thesis
    using bridge_tick_pending [of "st\<lparr>pending := []\<rparr>" t0 d now] nc
    by (simp add: animation_frame_fires [OF nc pd])
qed

lemma animation_frame_sets_progress:
  assumes "bridge_inv st" and "pending st \<noteq> []"
  shows "bridgeProg (animation_frame t0 d now st) = bridgeProgress t0 d now
    \<and> (bridgeProgress t0 d now < 1 \<longrightarrow> length (pending (animation_frame t0 d now st)) = 1)"
proof -
  have nc: "\<not> cancelled st" and pd: "pending st = [raf st]"
    using assms by (auto simp add: bridge_inv_def)
  show ?thesis
    using nc
    by (simp add: animation_frame_fires [OF nc pd] bridge_tick_def requestAnimationFrame_def Let_def)
qed

lemma bridge_cleanup_pending: "bridge_inv st \<Longrightarrow> pending (bridge_cleanup st) = []"
  by (auto simp add: bridge_cleanup_def cancelAnimationFrame_def bridge_inv_def Let_def)

lemma bridge_cleanup_cancelled: "cancelled (bridge_cleanup st)"
  by (simp add: bridge_cleanup_def cancelAnimationFrame_def Let_def)

lemma bridge_step_inv:
  assumes "bridge_inv st"
  shows "bridge_inv (bridge_step t0 d e st)"
proof (cases e)
  case (Frame now)
  then show ?thesis using assms by (simp add: animation_frame_inv)
next
  case Cleanup
  have "pending (bridge_cleanup st) = []"
    using assms by (rule bridge_cleanup_pending)
  then show ?thesis using Cleanup by (simp add: bridge_inv_def)
qed

lemma bridge_run_inv: "bridge_inv st \<Longrightarrow> bridge_inv (bridge_run t0 d es st)"
  by (induction es arbitrary: st) (simp_all add: bridge_step_inv)

lemma bridge_step_idle:
  assumes "pending st = []"
  shows "pending (bridge_step t0 d e st) = []"
proof (cases e)
  case (Frame now)
  then show ?thesis using assms by (simp add: animation_frame_idle)
next
  case Cleanup
  have "bridge_inv st" using assms by (simp add: bridge_inv_def)
  then have "pending (bridge_cleanup st) = []" by (rule bridge_cleanup_pending)
  then show ?thesis using Cleanup by simp
qed

lemma bridge_run_idle: "pending st = [] \<Longrightarrow> pending (bridge_run t0 d es st) = []"
  by (induction es arbitrary: st) (simp_all add: bridge_step_idle)

lemma bridge_inv_length: "bridge_inv st \<Longrightarrow> length (pending st) \<le> 1"
  by (auto simp add: bridge_inv_def)

text \<open>
  Claim C7. In the bridge loop of CombinedAnimation, for \<open>bridgeDurationMs > 0\<close> and a
  frame time \<open>now \<ge> t0\<close>, the progress \<open>min(1, (now - t0) / bridgeDurationMs)\<close> lies in
  \<open>[0,1]\<close> and is nondecreasing in \<open>now\<close>. A frame that finds a request outstanding stores
  that progress, and it requests a further frame only when the progress is below \<open>1\<close>: once
  the progress is \<open>1\<close> nothing is outstanding and nothing is requested again. A started
  effect has at most one request outstanding at any time, after the cleanup it has none,
  and with \<open>bridgeRun = 0\<close> the effect does not start.
\<close>

theorem bridge_loop_progress_and_single_request:
  assumes "0 < d" and "t0 \<le> now" and "now \<le> now'"
    and "bridge_effect bridgeRun h0 p0 = Some st0"
  shows "0 \<le> bridgeProgress t0 d now \<and> bridgeProgress t0 d now \<le> 1
    \<and> bridgeProgress t0 d now \<le> bridgeProgress t0 d now'
    \<and> length (pending st0) = 1
    \<and> length (pending (bridge_run t0 d es st0)) \<le> 1
    \<and> (pending (bridge_run t0 d es st0) \<noteq> [] \<longrightarrow>
         bridgeProg (animation_frame t0 d now (bridge_run t0 d es st0)) = bridgeProgress t0 d now)
    \<and> (pending (animation_frame t0 d now (bridge_run t0 d es st0)) \<noteq> [] \<longrightarrow>
         bridgeProgress t0 d now < 1)
    \<and> (bridgeProgress t0 d now = 1 \<longrightarrow>
         pending (bridge_run t0 d es' (animation_frame t0 d now (bridge_run t0 d es st0))) = [])
    \<and> pending (bridge_run t0 d es' (bridge_cleanup (bridge_run t0 d es st0))) = []
    \<and> bridge_effect 0 h0 p0 = None"
proof -
  let ?st = "bridge_run t0 d es st0"
  have inv0: "bridge_inv st0" using assms(4) by (rule bridge_effect_inv)
  then have inv: "bridge_inv ?st" by (rule bridge_run_inv)
  have first: "length (pending st0) = 1"
    using assms(4)
    by (auto simp add: bridge_effect_def requestAnimationFrame_def Let_def split: if_splits)
  have req: "pending (animation_frame t0 d now ?st) \<noteq> [] \<longrightarrow> bridgeProgress t0 d now < 1"
    using inv by (rule animation_frame_requests)
  have stop: "pending (bridge_run t0 d es' (animation_frame t0 d now ?st)) = []"
    if "bridgeProgress t0 d now = 1"
  proof -
    have "pending (animation_frame t0 d now ?st) = []"
      using req that by auto
    then show ?thesis by (rule bridge_run_idle)
  qed
  have clean: "pending (bridge_run t0 d es' (bridge_cleanup ?st)) = []"
    using bridge_cleanup_pending [OF inv] by (rule bridge_run_idle)
  have none: "bridge_effect 0 h0 p0 = None"
    by (simp add: bridge_effect_def)
  show ?thesis
    using bridgeProgress_range [OF assms(1,2)] bridgeProgress_mono [OF assms(1,3)]
      first bridge_inv_length [OF inv] animation_frame_sets_progress [OF inv]
      req stop clean none
    by blast
qed

theorem bridge_loop_progress_and_single_request_witness:
  "(0::real) < 1200 \<and> (0::real) \<le> 600 \<and> (600::real) \<le> 1200
   \<and> bridge_effect 1 0 0
       = Some \<lparr>cancelled = False, raf = 1, pending = [1], last_handle = 1, bridgeProg = 0\<rparr>
   \<and> bridgeProgress 0 1200 600 = 0.5 \<and> bridgeProgress 0 1200 1200 = 1
   \<and> bridge_run 0 1200 [Frame 300]
        \<lparr>cancelled = False, raf = 1, pending = [1], last_handle = 1, bridgeProg = 0\<rparr>
       = \<lparr>cancelled = False, raf = 2, pending = [2], last_handle = 2, bridgeProg = 0.25\<rparr>
   \<and> animation_frame 0 1200 600 (bridge_run 0 1200 [Frame 300]
        \<lparr>cancelled = False, raf = 1, pending = [1], last_handle = 1, bridgeProg = 0\<rparr>)
       = \<lparr>cancelled = False, raf = 3, pending = [3], last_handle = 3, bridgeProg = 0.5\<rparr>
   \<and> pending (bridge_run 0 1200 [Frame 1300] (bridge_cleanup (bridge_run 0 1200 [Frame 300]
        \<lparr>cancelled = False, raf = 1, pending = [1], last_handle = 1, bridgeProg = 0\<rparr>))) = []
   \<and> bridge_run 0 1200 [Frame 1300] (animation_frame 0 1200 1200 (bridge_run 0 1200 [Frame 300]
        \<lparr>cancelled = False, raf = 1, pending = [1], last_handle = 1, bridgeProg = 0\<rparr>))
       = \<lparr>cancelled = False, raf = 2, pending = [], last_handle = 2, bridgeProg = 1\<rparr>"
  using bridge_loop_progress_and_single_request
    [of 1200 0 600 1200 1 0 0
      "\<lparr>cancelled = False, raf = 1, pending = [1], last_handle = 1, bridgeProg = 0\<rparr>"
      "[Frame 300]" "[Frame 1300]"]
    bridge_loop_progress_and_single_request
    [of 1200 0 1200 1200 1 0 0
      "\<lparr>cancelled = False, raf = 1, pending = [1], last_handle = 1, bridgeProg = 0\<rparr>"
      "[Frame 300]" "[Frame 1300]"]
  by (simp add: bridge_effect_def requestAnimationFrame_def animation_frame_def bridge_tick_def
      bridgeProgress_def bridge_cleanup_def cancelAnimationFrame_def Let_def)

end
